theory Spec2Isabelle
  imports Main "HOL-Library.Word"
begin

section \<open>Python strings\<close>

text \<open>
  Strings are lists of 8-bit characters, so the model covers the code points below 256.
  The helpers below are the built-in string operations the program calls.
\<close>

definition is_space :: "char \<Rightarrow> bool" where
  \<comment> \<open>\<^verbatim>\<open>str.isspace\<close> on one character: tab, line feed, vertical tab, form feed, carriage
      return, the four separators 28-31, space, next line (133) and no-break space (160).\<close>
  "is_space c = ((of_char c :: nat) \<in> {9, 10, 11, 12, 13, 28, 29, 30, 31, 32, 133, 160})"

definition strip :: "string \<Rightarrow> string" where
  \<comment> \<open>\<^verbatim>\<open>str.strip()\<close>: whitespace removed at both ends.\<close>
  "strip s = rev (dropWhile is_space (rev (dropWhile is_space s)))"

definition endswith :: "string \<Rightarrow> string \<Rightarrow> bool" where
  \<comment> \<open>\<^verbatim>\<open>s.endswith(suf)\<close>\<close>
  "endswith s suf = (length suf \<le> length s \<and> drop (length s - length suf) s = suf)"

function rjust :: "char \<Rightarrow> nat \<Rightarrow> string \<Rightarrow> string" where
  \<comment> \<open>The format specification \<^verbatim>\<open>{s:c>w}\<close> on a string: fill characters are put in front
      of \<open>s\<close> while it is shorter than \<open>w\<close>; a string of width \<open>w\<close> or more is unchanged.\<close>
  "rjust c w s = (if length s < w then rjust c w (c # s) else s)"
  by pat_completeness auto
termination
  by (relation "measure (\<lambda>(c, w, s). w - length s)") auto

declare rjust.simps [simp del]

section \<open>Errors\<close>

type_synonym cause = string

datatype error =
    NameNotMatched string
      \<comment> \<open>\<^verbatim>\<open>ValueError(f"Regular Expression for name did not match for {url!r}")\<close>\<close>
  | NoImagesFound string
      \<comment> \<open>\<^verbatim>\<open>RuntimeError(f"No images found for {url!r}")\<close>\<close>
  | DownloadFailed string cause
      \<comment> \<open>\<^verbatim>\<open>RuntimeError(f"Encountered an error while downloading {self.url!r}") from e\<close>\<close>
  | IndexError
      \<comment> \<open>\<^verbatim>\<open>match.group(1)\<close> on a pattern that has no group\<close>
  | TypeError
      \<comment> \<open>\<^verbatim>\<open>None\<close> given to \<^verbatim>\<open>re.search\<close> or to a format specification\<close>
  | FormatError
      \<comment> \<open>\<^verbatim>\<open>ValueError\<close> of a format specification: a sign, as a negative width gives, or too
          many digits in the width\<close>
  | KeyError string
      \<comment> \<open>a dictionary read by index at a key it does not have\<close>
  | AttributeError
      \<comment> \<open>\<^verbatim>\<open>_imgs_data\<close> read before it was ever assigned\<close>
  | ZeroDivisionError
      \<comment> \<open>\<^verbatim>\<open>1 / overall\<close> with \<^verbatim>\<open>overall\<close> zero\<close>
  | OverflowError
      \<comment> \<open>an integer too large for a float, or the ceiling of an infinite float\<close>
  | Uncaught cause
      \<comment> \<open>an exception of a collaborator that no handler of the program wraps\<close>

section \<open>Regular expression search\<close>

text \<open>
  What the program reads from \<^verbatim>\<open>re.search(regex, data)\<close> is whether there is a match and
  \<^verbatim>\<open>match.group(1)\<close>. The latter raises IndexError when the pattern has no group and is
  \<^verbatim>\<open>None\<close> when the group took no part in the match.
\<close>

datatype group1 = NoSuchGroup | NotParticipating | Captured string

type_synonym 'rx search = "'rx \<Rightarrow> string \<Rightarrow> group1 option"

subsection \<open>The fragment of the pattern language that the default patterns use\<close>

datatype cset = AnyChar | Digit | Lit char | NotLit char

fun in_cset :: "cset \<Rightarrow> char \<Rightarrow> bool" where
  "in_cset AnyChar c = (c \<noteq> CHR 0x0A)"
| "in_cset Digit c = (c \<in> set ''0123456789'')"
| "in_cset (Lit a) c = (c = a)"
| "in_cset (NotLit a) c = (c \<noteq> a)"

datatype regex = Bol | Eol | One cset | Plus cset | Opt cset | Group regex | Seq regex regex

fun has_group :: "regex \<Rightarrow> bool" where
  "has_group (Group r) = True"
| "has_group (Seq a b) = (has_group a \<or> has_group b)"
| "has_group _ = False"

text \<open>
  A backtracking matcher over a subject \<open>s\<close>. A state is the position reached and the text
  of group 1 so far; the result lists the states a pattern can end in, in the order in
  which backtracking tries them: greedy repetition offers the longest run first.
\<close>

fun matches :: "string \<Rightarrow> regex \<Rightarrow> nat \<times> string option \<Rightarrow> (nat \<times> string option) list" where
  "matches s Bol (i, g) = (if i = 0 then [(i, g)] else [])"
| "matches s Eol (i, g) =
     (if i = length s \<or> (Suc i = length s \<and> s ! i = CHR 0x0A) then [(i, g)] else [])"
| "matches s (One cs) (i, g) =
     (if i < length s \<and> in_cset cs (s ! i) then [(Suc i, g)] else [])"
| "matches s (Plus cs) (i, g) =
     map (\<lambda>k. (i + k, g)) (rev [1 ..< Suc (length (takeWhile (in_cset cs) (drop i s)))])"
| "matches s (Opt cs) (i, g) =
     (if i < length s \<and> in_cset cs (s ! i) then [(Suc i, g)] else []) @ [(i, g)]"
| "matches s (Group r) (i, g) =
     map (\<lambda>(j, _). (j, Some (take (j - i) (drop i s)))) (matches s r (i, g))"
| "matches s (Seq a b) st = concat (map (matches s b) (matches s a st))"

definition py_search :: "regex search" where
  \<comment> \<open>\<^verbatim>\<open>re.search\<close>: the first start position with a match, and there the first match that
      backtracking finds.\<close>
  "py_search r s =
     (case concat (map (\<lambda>i. matches s r (i, None)) [0 ..< Suc (length s)]) of
        [] \<Rightarrow> None
      | (j, g) # _ \<Rightarrow>
          Some (if \<not> has_group r then NoSuchGroup
                else case g of None \<Rightarrow> NotParticipating | Some t \<Rightarrow> Captured t))"

definition url_name_pattern :: regex where
  \<comment> \<open>the default of \<^verbatim>\<open>--url-name-pattern\<close>, \<^verbatim>\<open>^.+/([^/]+)/?$\<close>\<close>
  "url_name_pattern =
     Seq Bol (Seq (Plus AnyChar) (Seq (One (Lit CHR ''/''))
       (Seq (Group (Plus (NotLit CHR ''/''))) (Seq (Opt (Lit CHR ''/'')) Eol))))"

definition number_stage :: regex where
  \<comment> \<open>the stage that \<^verbatim>\<open>--number\<close> appends, \<^verbatim>\<open>(\d+)\<close>; also the default of \<^verbatim>\<open>--number-pattern\<close>\<close>
  "number_stage = Group (Plus Digit)"

section \<open>Archive names\<close>

fun sequential_search :: "'rx search \<Rightarrow> string option \<Rightarrow> 'rx list \<Rightarrow> error + string option" where
  \<comment> \<open>\<open>data\<close> is optional because \<^verbatim>\<open>match.group(1)\<close> may have put \<^verbatim>\<open>None\<close> there.\<close>
  "sequential_search srch data [] = Inr data"
| "sequential_search srch data (regex # regexs) =
     (case data of
        None \<Rightarrow> Inl TypeError
      | Some d \<Rightarrow>
          (case srch regex d of
             None \<Rightarrow> Inr None
           | Some NoSuchGroup \<Rightarrow> Inl IndexError
           | Some NotParticipating \<Rightarrow> sequential_search srch None regexs
           | Some (Captured t) \<Rightarrow> sequential_search srch (Some t) regexs))"

definition format_padded :: "string \<Rightarrow> int \<Rightarrow> error + string" where
  \<comment> \<open>\<^verbatim>\<open>f"{name:0>{padding}}"\<close>: a negative padding puts a sign into the specification,
      which a string refuses, and a width of \<open>2 ^ 63\<close> or more has too many digits for the
      specification (a 64-bit interpreter). Below that the model builds the string whatever
      its size: it has no bound on memory.\<close>
  "format_padded name padding =
     (if padding < 0 \<or> 2 ^ 63 \<le> padding then Inl FormatError
      else Inr (rjust CHR ''0'' (nat padding) name))"

definition get_name :: "'rx search \<Rightarrow> string \<Rightarrow> 'rx list \<Rightarrow> int option \<Rightarrow> error + string" where
  "get_name srch url regexs padding =
     (case sequential_search srch (Some url) regexs of
        Inl e \<Rightarrow> Inl e
      | Inr None \<Rightarrow> Inl (NameNotMatched url)
      | Inr (Some name) \<Rightarrow>
          (if padding \<noteq> None \<and> padding \<noteq> Some 0
           then (case format_padded name (the padding) of
                   Inl e \<Rightarrow> Inl e
                 | Inr padded \<Rightarrow> Inr (padded @ ''.cbz''))
           else Inr (name @ ''.cbz'')))"

section \<open>Images and archives\<close>

type_synonym bytes = "8 word list"

record img =
  filename :: string
  url :: string

record archive =
  filename :: string
  imgs :: "img list"
  imgs_data :: "bytes list option"
    \<comment> \<open>\<^verbatim>\<open>_imgs_data\<close> has no initial value: \<open>None\<close> until \<^verbatim>\<open>download\<close> assigns it\<close>

record 'rx image_config =
  selector :: string
  number_attr :: string
  url_attr :: string
  number_pattern :: 'rx

section \<open>The collaborators\<close>

text \<open>
  A node is the attribute dictionary of an element: an attribute written without a value
  is present with the value \<^verbatim>\<open>None\<close>.
\<close>

type_synonym node = "string \<rightharpoonup> string option"

text \<open>
  The network, the HTML parser, the image codec and the path arithmetic are parameters:
  \<^item> \<open>re_search\<close> is \<^verbatim>\<open>re.search\<close>;
  \<^item> \<open>page u sel\<close> is the list of nodes that \<^verbatim>\<open>HTMLParser(response.text).css(sel)\<close> gives for
    the page at \<open>u\<close>, in document order, or the exception of the request;
  \<^item> \<open>fetch u\<close> is the image that \<^verbatim>\<open>session.get\<close>, \<^verbatim>\<open>acontent\<close> and \<^verbatim>\<open>Image.open\<close> give for
    \<open>u\<close>, or the exception of one of them;
  \<^item> \<open>encode im\<close> is what \<^verbatim>\<open>image.save(buffer, format="jpeg")\<close> writes, or its exception;
  \<^item> \<open>settled is\<close> is the order in which the download tasks of \<open>is\<close> finish;
  \<^item> \<open>joinpath d f\<close> is \<^verbatim>\<open>d / f\<close>;
  \<^item> \<open>open_zip p\<close> is the exception of \<^verbatim>\<open>ZipFile(p, "w")\<close> when the file cannot be opened for
    writing (a missing parent directory, a directory at \<open>p\<close>, no permission), and \<open>None\<close>
    when it can.
\<close>

record ('rx, 'im) world =
  re_search :: "'rx search"
  page :: "string \<Rightarrow> string \<Rightarrow> cause + node list"
  fetch :: "string \<Rightarrow> cause + 'im"
  encode :: "'im \<Rightarrow> cause + bytes"
  settled :: "img list \<Rightarrow> nat list"
  joinpath :: "string \<Rightarrow> string \<Rightarrow> string"
  open_zip :: "string \<Rightarrow> cause option"

section \<open>Locating images\<close>

datatype diag =
    NotPresent "string option" "string option"
      \<comment> \<open>"Url or number for image is not present: url = ..., number = ..."\<close>
  | Dropped string
      \<comment> \<open>"Image with url = ... will be dropped"\<close>
  | NoNumber string string
      \<comment> \<open>"No number found for image ... in ..."\<close>

datatype located = Skipped diag | Found img

definition attributes_get :: "node \<Rightarrow> string \<Rightarrow> string option" where
  \<comment> \<open>\<^verbatim>\<open>node.attributes.get(k)\<close>\<close>
  "attributes_get node k = (case node k of None \<Rightarrow> None | Some v \<Rightarrow> v)"

definition falsy :: "string option \<Rightarrow> bool" where
  \<comment> \<open>\<^verbatim>\<open>not v\<close> on an optional string\<close>
  "falsy v = (v = None \<or> v = Some [])"

definition img_of_match :: "'rx search \<Rightarrow> 'rx \<Rightarrow> string \<Rightarrow> string \<Rightarrow> error + located" where
  \<comment> \<open>the part of \<^verbatim>\<open>img_from_node\<close> from the search on, shared by both scripts\<close>
  "img_of_match srch pat u n =
     (case srch pat n of
        None \<Rightarrow> Inr (Skipped (NoNumber u n))
      | Some NoSuchGroup \<Rightarrow> Inl IndexError
      | Some NotParticipating \<Rightarrow> Inl TypeError
      | Some (Captured t) \<Rightarrow>
          Inr (Found \<lparr>img.filename = rjust CHR ''0'' 3 t @ ''.jpg'', url = strip u\<rparr>))"

definition img_from_node :: "'rx search \<Rightarrow> node \<Rightarrow> 'rx image_config \<Rightarrow> error + located" where
  "img_from_node srch node config =
     (let number = attributes_get node (number_attr config);
          url = attributes_get node (url_attr config)
      in if falsy url \<or> falsy number then Inr (Skipped (NotPresent url number))
         else if endswith (the url) ''png'' then Inr (Skipped (Dropped (the url)))
         else img_of_match srch (number_pattern config) (the url) (the number))"

fun collect :: "(error + located) list \<Rightarrow> diag list \<times> (error + img list)" where
  \<comment> \<open>the list comprehension over the generator: the diagnostics printed on the way, and
      the images found, or the first exception\<close>
  "collect [] = ([], Inr [])"
| "collect (Inl e # rs) = ([], Inl e)"
| "collect (Inr (Skipped d) # rs) = (let (ds, r) = collect rs in (d # ds, r))"
| "collect (Inr (Found i) # rs) =
     (let (ds, r) = collect rs in (ds, case r of Inl e \<Rightarrow> Inl e | Inr is \<Rightarrow> Inr (i # is)))"

definition locate :: "'rx search \<Rightarrow> node list \<Rightarrow> 'rx image_config \<Rightarrow> diag list \<times> (error + img list)" where
  \<comment> \<open>\<^verbatim>\<open>find_images\<close> after the page is parsed\<close>
  "locate srch nodes config = collect (map (\<lambda>node. img_from_node srch node config) nodes)"

definition find_images ::
  "('rx, 'im) world \<Rightarrow> string \<Rightarrow> 'rx image_config \<Rightarrow> diag list \<times> (error + img list)" where
  "find_images w u config =
     (case page w u (selector config) of
        Inl c \<Rightarrow> ([], Inl (Uncaught c))
      | Inr nodes \<Rightarrow> locate (re_search w) nodes config)"

section \<open>Downloading\<close>

definition download_jpeg :: "('rx, 'im) world \<Rightarrow> img \<Rightarrow> error + bytes" where
  \<comment> \<open>the \<^verbatim>\<open>try\<close> block ends before \<^verbatim>\<open>image.save\<close>\<close>
  "download_jpeg w i =
     (case fetch w (url i) of
        Inl c \<Rightarrow> Inl (DownloadFailed (url i) c)
      | Inr im \<Rightarrow>
          (case encode w im of Inl c \<Rightarrow> Inl (Uncaught c) | Inr b \<Rightarrow> Inr b))"

definition gather :: "nat list \<Rightarrow> (error + 'a) list \<Rightarrow> error + 'a list" where
  \<comment> \<open>\<^verbatim>\<open>asyncio.gather(*tasks)\<close>: the results in the order of the tasks; when a task raises,
      the exception of the task that raises first. \<open>order\<close> lists the tasks as they finish
      (tasks it leaves out finish last, in their own order).\<close>
  "gather order rs =
     (case filter (\<lambda>k. k < length rs \<and> isl (rs ! k)) (order @ [0 ..< length rs]) of
        k # _ \<Rightarrow> Inl (projl (rs ! k))
      | [] \<Rightarrow> Inr (map projr rs))"

definition download :: "('rx, 'im) world \<Rightarrow> archive \<Rightarrow> archive \<times> error option" where
  \<comment> \<open>the archive after the call, and the exception if there was one\<close>
  "download w a =
     (case gather (settled w (imgs a)) (map (download_jpeg w) (imgs a)) of
        Inl e \<Rightarrow> (a, Some e)
      | Inr bs \<Rightarrow> (a\<lparr>imgs_data := Some bs\<rparr>, None))"

section \<open>Saving\<close>

text \<open>
  A zip file is the list of its entries, name and content, in the order written: an entry
  written under a name that the file already has is one more entry.
\<close>

type_synonym files = "string \<rightharpoonup> (string \<times> bytes) list"

definition zipinfo_filename :: "string \<Rightarrow> string" where
  \<comment> \<open>the name that \<^verbatim>\<open>writestr\<close> gives the entry: \<^verbatim>\<open>ZipInfo\<close> ends a name at its first null
      character\<close>
  "zipinfo_filename name = takeWhile (\<lambda>c. c \<noteq> CHR 0x00) name"

definition save ::
  "('rx, 'im) world \<Rightarrow> archive \<Rightarrow> string \<Rightarrow> files \<Rightarrow> files \<times> error option" where
  \<comment> \<open>\<^verbatim>\<open>ZipFile(path, "w")\<close> raises and writes nothing when the file cannot be opened, and
      truncates the file before \<^verbatim>\<open>_imgs_data\<close> is read when it can. Once the file is open
      the disk takes every entry.\<close>
  "save w a directory fs =
     (let path = joinpath w directory (archive.filename a)
      in case open_zip w path of
           Some c \<Rightarrow> (fs, Some (Uncaught c))
         | None \<Rightarrow>
             (case imgs_data a of
                None \<Rightarrow> (fs(path \<mapsto> []), Some AttributeError)
              | Some bs \<Rightarrow>
                  (fs(path \<mapsto> zip (map (zipinfo_filename \<circ> img.filename) (imgs a)) bs),
                   None)))"


section \<open>The older script\<close>

text \<open>
  \<^verbatim>\<open>ComicDownloader.py\<close> holds an earlier copy of the pipeline. Its \<^verbatim>\<open>img_from_node\<close> reads
  the attributes by index and has no test of the suffix, its \<^verbatim>\<open>download_jpeg\<close> has no
  handler, and its loop has neither the test for an empty result nor the progress display.
\<close>

definition attributes_index :: "node \<Rightarrow> string \<Rightarrow> error + string option" where
  \<comment> \<open>\<^verbatim>\<open>node.attributes[k]\<close>\<close>
  "attributes_index node k = (case node k of None \<Rightarrow> Inl (KeyError k) | Some v \<Rightarrow> Inr v)"

definition img_from_node_legacy :: "'rx search \<Rightarrow> node \<Rightarrow> 'rx image_config \<Rightarrow> error + located" where
  "img_from_node_legacy srch node config =
     (case attributes_index node (number_attr config) of
        Inl e \<Rightarrow> Inl e
      | Inr n \<Rightarrow>
          (case attributes_index node (url_attr config) of
             Inl e \<Rightarrow> Inl e
           | Inr u \<Rightarrow>
               if falsy u \<or> falsy n then Inr (Skipped (NotPresent u n))
               else img_of_match srch (number_pattern config) (the u) (the n)))"

definition locate_legacy ::
  "'rx search \<Rightarrow> node list \<Rightarrow> 'rx image_config \<Rightarrow> diag list \<times> (error + img list)" where
  "locate_legacy srch nodes config =
     collect (map (\<lambda>node. img_from_node_legacy srch node config) nodes)"

definition find_images_legacy ::
  "('rx, 'im) world \<Rightarrow> string \<Rightarrow> 'rx image_config \<Rightarrow> diag list \<times> (error + img list)" where
  "find_images_legacy w u config =
     (case page w u (selector config) of
        Inl c \<Rightarrow> ([], Inl (Uncaught c))
      | Inr nodes \<Rightarrow> locate_legacy (re_search w) nodes config)"

definition download_jpeg_legacy :: "('rx, 'im) world \<Rightarrow> img \<Rightarrow> error + bytes" where
  "download_jpeg_legacy w i =
     (case fetch w (url i) of
        Inl c \<Rightarrow> Inl (Uncaught c)
      | Inr im \<Rightarrow>
          (case encode w im of Inl c \<Rightarrow> Inl (Uncaught c) | Inr b \<Rightarrow> Inr b))"

definition download_legacy :: "('rx, 'im) world \<Rightarrow> archive \<Rightarrow> archive \<times> error option" where
  "download_legacy w a =
     (case gather (settled w (imgs a)) (map (download_jpeg_legacy w) (imgs a)) of
        Inl e \<Rightarrow> (a, Some e)
      | Inr bs \<Rightarrow> (a\<lparr>imgs_data := Some bs\<rparr>, None))"

section \<open>The run over the URLs\<close>

record 'rx args =
  regexs :: "'rx list"
  padding :: "int option"
  directory :: string
  config :: "'rx image_config"

datatype event =
    Progress nat nat string
      \<comment> \<open>\<^verbatim>\<open>print(msg)\<close>: the bar of \<open>idx\<close> out of the number of URLs, and "Processing url"\<close>
  | Processing string
      \<comment> \<open>the older script's \<^verbatim>\<open>print(f"Processing {url!r}")\<close>\<close>
  | Diagnostic diag
  | Erased
      \<comment> \<open>\<^verbatim>\<open>print(msg.clear_str(), end="")\<close>\<close>
  | Final nat
      \<comment> \<open>the full bar printed after the loop\<close>

record state =
  files :: files
  out :: "event list"

definition emit :: "event list \<Rightarrow> state \<Rightarrow> state" where
  "emit es st = st\<lparr>out := out st @ es\<rparr>"

definition body ::
  "('rx, 'im) world \<Rightarrow> 'rx args \<Rightarrow> nat \<Rightarrow> nat \<Rightarrow> string \<Rightarrow> state \<Rightarrow> state \<times> error option" where
  \<comment> \<open>one turn of the loop of \<^verbatim>\<open>actions\<close>, for the URL \<open>u\<close> at index \<open>idx\<close> of \<open>len\<close> URLs\<close>
  "body w a idx len u st =
     (let st1 = emit [Progress idx len u] st;
          (ds, r) = find_images w u (config a);
          st2 = emit (map Diagnostic ds) st1
      in case r of
           Inl e \<Rightarrow> (st2, Some e)
         | Inr images \<Rightarrow>
             if length images = 0 then (st2, Some (NoImagesFound u))
             else
               (case get_name (re_search w) u (regexs a) (padding a) of
                  Inl e \<Rightarrow> (st2, Some e)
                | Inr name \<Rightarrow>
                    (case download w \<lparr>archive.filename = name, imgs = images, imgs_data = None\<rparr> of
                       (ar, Some e) \<Rightarrow> (st2, Some e)
                     | (ar, None) \<Rightarrow>
                         (case save w ar (directory a) (files st2) of
                            (fs, Some e) \<Rightarrow> (st2\<lparr>files := fs\<rparr>, Some e)
                          | (fs, None) \<Rightarrow> (emit [Erased] (st2\<lparr>files := fs\<rparr>), None)))))"

fun loop ::
  "('rx, 'im) world \<Rightarrow> 'rx args \<Rightarrow> nat \<Rightarrow> nat \<Rightarrow> string list \<Rightarrow> state \<Rightarrow> state \<times> error option" where
  \<comment> \<open>the \<^verbatim>\<open>for\<close> loop from index \<open>idx\<close> on: an exception leaves the loop\<close>
  "loop w a len idx [] st = (st, None)"
| "loop w a len idx (u # us) st =
     (case body w a idx len u st of
        (st', Some e) \<Rightarrow> (st', Some e)
      | (st', None) \<Rightarrow> loop w a len (Suc idx) us st')"

definition actions ::
  "('rx, 'im) world \<Rightarrow> 'rx args \<Rightarrow> string list \<Rightarrow> state \<Rightarrow> state \<times> error option" where
  \<comment> \<open>the final bar divides by the number of URLs\<close>
  "actions w a urls st =
     (case loop w a (length urls) 0 urls st of
        (st', Some e) \<Rightarrow> (st', Some e)
      | (st', None) \<Rightarrow>
          if length urls = 0 then (st', Some ZeroDivisionError)
          else (emit [Final (length urls)] st', None))"

definition body_legacy ::
  "('rx, 'im) world \<Rightarrow> 'rx args \<Rightarrow> string \<Rightarrow> state \<Rightarrow> state \<times> error option" where
  "body_legacy w a u st =
     (let st1 = emit [Processing u] st;
          (ds, r) = find_images_legacy w u (config a);
          st2 = emit (map Diagnostic ds) st1
      in case r of
           Inl e \<Rightarrow> (st2, Some e)
         | Inr images \<Rightarrow>
             (case get_name (re_search w) u (regexs a) (padding a) of
                Inl e \<Rightarrow> (st2, Some e)
              | Inr name \<Rightarrow>
                  (case download_legacy w
                          \<lparr>archive.filename = name, imgs = images, imgs_data = None\<rparr> of
                     (ar, Some e) \<Rightarrow> (st2, Some e)
                   | (ar, None) \<Rightarrow>
                       (case save w ar (directory a) (files st2) of
                          (fs, e) \<Rightarrow> (st2\<lparr>files := fs\<rparr>, e)))))"

fun actions_legacy ::
  "('rx, 'im) world \<Rightarrow> 'rx args \<Rightarrow> string list \<Rightarrow> state \<Rightarrow> state \<times> error option" where
  "actions_legacy w a [] st = (st, None)"
| "actions_legacy w a (u # us) st =
     (case body_legacy w a u st of
        (st', Some e) \<Rightarrow> (st', Some e)
      | (st', None) \<Rightarrow> actions_legacy w a us st')"

section \<open>The progress bar\<close>

text \<open>
  \<^verbatim>\<open>bar\<close> computes with floats. A finite float is a pair \<open>(m, e)\<close> of integers, standing for
  \<open>m * 2 ^ e\<close>, with at most 53 bits in \<open>m\<close> and \<open>e\<close> at least \<open>-1074\<close>. Every operation gives
  the float nearest to the exact result, ties going to the even \<open>m\<close>; \<open>None\<close> is a result
  of \<open>2 ^ 1024\<close> or more.
\<close>

type_synonym float = "int \<times> int"

function bit_length :: "int \<Rightarrow> int" where
  \<comment> \<open>the number of binary digits of a positive integer\<close>
  "bit_length n = (if n \<le> 0 then 0 else 1 + bit_length (n div 2))"
  by pat_completeness auto
termination
  by (relation "measure nat") auto

declare bit_length.simps [simp del]

definition round_ratio :: "int \<Rightarrow> int \<Rightarrow> float option" where
  \<comment> \<open>the float nearest to \<open>a / b\<close>, for \<open>0 < b\<close>\<close>
  "round_ratio a b =
     (if a = 0 then Some (0, 0)
      else
        let e0 = bit_length \<bar>a\<bar> - bit_length b - 53;
            q0 = (\<bar>a\<bar> * 2 ^ nat (- e0)) div (b * 2 ^ nat e0);
            e = max (if 2 ^ 53 \<le> q0 then e0 + 1 else e0) (- 1074);
            n = \<bar>a\<bar> * 2 ^ nat (- e);
            d = b * 2 ^ nat e;
            q = n div d;
            r = n mod d;
            m = (if 2 * r < d then q else if d < 2 * r then q + 1
                 else if even q then q else q + 1)
        in if 2 ^ 2098 \<le> m * 2 ^ nat (e + 1074) then None else Some (sgn a * m, e))"

definition float_of_int :: "int \<Rightarrow> float option" where
  "float_of_int n = round_ratio n 1"

definition true_divide :: "int \<Rightarrow> int \<Rightarrow> error + float" where
  \<comment> \<open>\<^verbatim>\<open>a / b\<close> on integers\<close>
  "true_divide a b =
     (if b = 0 then Inl ZeroDivisionError
      else case round_ratio (a * sgn b) \<bar>b\<bar> of None \<Rightarrow> Inl OverflowError | Some x \<Rightarrow> Inr x)"

definition float_mult :: "float \<Rightarrow> float \<Rightarrow> float option" where
  "float_mult x y =
     (let s = snd x + snd y
      in round_ratio (fst x * fst y * 2 ^ nat s) (2 ^ nat (- s)))"

definition float_ceil :: "float \<Rightarrow> int" where
  \<comment> \<open>\<^verbatim>\<open>math.ceil\<close>\<close>
  "float_ceil x =
     (if 0 \<le> snd x then fst x * 2 ^ nat (snd x) else - ((- fst x) div 2 ^ nat (- snd x)))"

definition repeat :: "string \<Rightarrow> int \<Rightarrow> string" where
  \<comment> \<open>\<^verbatim>\<open>s * k\<close>: empty for a negative \<open>k\<close>\<close>
  "repeat s k = concat (replicate (nat k) s)"

definition taken :: "int \<Rightarrow> int \<Rightarrow> int \<Rightarrow> error + int" where
  \<comment> \<open>the two assignments of \<^verbatim>\<open>bar\<close>: \<^verbatim>\<open>step = 1 / overall * width\<close> and
      \<^verbatim>\<open>taken = ceil(completed * step)\<close>; an infinite product has no ceiling\<close>
  "taken completed overall width =
     (case true_divide 1 overall of
        Inl e \<Rightarrow> Inl e
      | Inr x \<Rightarrow>
          (case float_of_int width of
             None \<Rightarrow> Inl OverflowError
           | Some wd \<Rightarrow>
               (case float_mult x wd of
                  None \<Rightarrow> Inl OverflowError
                | Some step \<Rightarrow>
                    (case float_of_int completed of
                       None \<Rightarrow> Inl OverflowError
                     | Some c \<Rightarrow>
                         (case float_mult c step of
                            None \<Rightarrow> Inl OverflowError
                          | Some t \<Rightarrow> Inr (float_ceil t))))))"

definition bar :: "int \<Rightarrow> int \<Rightarrow> int \<Rightarrow> string \<Rightarrow> string \<Rightarrow> error + string" where
  "bar completed overall width filler empty' =
     (case taken completed overall width of
        Inl e \<Rightarrow> Inl e
      | Inr t \<Rightarrow> Inr (''['' @ repeat filler t @ repeat empty' (width - t) @ '']''))"

section \<open>The chain of patterns as the specification words it\<close>

text \<open>
  The specification describes name resolution as a pass over the chain that starts with
  the URL and replaces the working value with the first group of each match; a stage
  that does not match leaves no value.
\<close>

definition spec_stage :: "'rx search \<Rightarrow> string option \<Rightarrow> 'rx \<Rightarrow> string option" where
  "spec_stage srch acc r =
     (case acc of
        None \<Rightarrow> None
      | Some d \<Rightarrow> (case srch r d of Some (Captured t) \<Rightarrow> Some t | _ \<Rightarrow> None))"

definition spec_resolve :: "'rx search \<Rightarrow> string \<Rightarrow> 'rx list \<Rightarrow> string option" where
  "spec_resolve srch u rs = foldl (spec_stage srch) (Some u) rs"

fun groups_present :: "'rx search \<Rightarrow> string \<Rightarrow> 'rx list \<Rightarrow> bool" where
  \<comment> \<open>every match met along the chain has a first group that took part in it\<close>
  "groups_present srch d [] = True"
| "groups_present srch d (r # rs) =
     (case srch r d of
        None \<Rightarrow> True
      | Some (Captured t) \<Rightarrow> groups_present srch t rs
      | Some _ \<Rightarrow> False)"

section \<open>Sample inputs\<close>

definition default_config :: "regex image_config" where
  \<comment> \<open>the defaults of \<^verbatim>\<open>--image-selector\<close>, \<^verbatim>\<open>--number-attr\<close>, \<^verbatim>\<open>--url-attr\<close> and
      \<^verbatim>\<open>--number-pattern\<close>\<close>
  "default_config = \<lparr>selector = ''img'', number_attr = ''id'', url_attr = ''src'',
      number_pattern = number_stage\<rparr>"

definition three_nodes :: "node list" where
  \<comment> \<open>three \<^verbatim>\<open>img\<close> elements with the ids 1, 2 and 3\<close>
  "three_nodes = [[''id'' \<mapsto> Some ''1'', ''src'' \<mapsto> Some ''https://example.com/a.jpg''],
                  [''id'' \<mapsto> Some ''2'', ''src'' \<mapsto> Some ''https://example.com/b.jpg''],
                  [''id'' \<mapsto> Some ''3'', ''src'' \<mapsto> Some ''https://example.com/c.jpg'']]"

definition posix_join :: "string \<Rightarrow> string \<Rightarrow> string" where
  \<comment> \<open>\<^verbatim>\<open>d / f\<close> for a relative \<open>f\<close>\<close>
  "posix_join d f = d @ ''/'' @ f"


definition sample_archive :: archive where
  "sample_archive = \<lparr>archive.filename = ''042.cbz'',
     imgs = [\<lparr>img.filename = ''001.jpg'', url = ''https://example.com/a.jpg''\<rparr>,
             \<lparr>img.filename = ''002.jpg'', url = ''https://example.com/b.jpg''\<rparr>],
     imgs_data = Some [[255, 216, 1], [255, 216, 2]]\<rparr>"

definition sample_world :: "(regex, string) world" where
  \<comment> \<open>chapter 1 has no image, chapter 2 and the chapter named \<^verbatim>\<open>two\<close> have the three of
      \<open>three_nodes\<close>, chapter 4 has one image that cannot be fetched; an image is known by
      its mode, and the encoder refuses the mode with transparency; the downloads finish in
      reverse order; a file in the directory \<^verbatim>\<open>missing\<close> cannot be opened\<close>
  "sample_world = \<lparr>
     re_search = py_search,
     page = (\<lambda>u sel. if u = ''https://example.com/chapter/1/'' then Inr []
                      else if u = ''https://example.com/chapter/2/'' then Inr three_nodes
                      else if u = ''https://example.com/chapter/two/'' then Inr three_nodes
                      else if u = ''https://example.com/chapter/4/''
                        then Inr [[''id'' \<mapsto> Some ''1'',
                                   ''src'' \<mapsto> Some ''https://example.com/missing.jpg'']]
                      else Inl ''not found''),
     fetch = (\<lambda>u. if u = ''https://example.com/missing.jpg'' then Inl ''404''
                    else if u = ''https://example.com/rgba.jpg'' then Inr ''RGBA''
                    else Inr ''RGB''),
     encode = (\<lambda>im. if im = ''RGBA'' then Inl ''cannot write mode RGBA as JPEG''
                     else Inr [255, 216, 255]),
     settled = (\<lambda>is. rev [0 ..< length is]),
     joinpath = posix_join,
     open_zip = (\<lambda>p. if p = ''missing/042.cbz'' then Some ''No such file or directory''
                     else None)\<rparr>"

definition sample_args :: "regex args" where
  \<comment> \<open>the package's defaults, which the older script takes with \<^verbatim>\<open>-n -p\<close>, and the
      directory \<^verbatim>\<open>out\<close>\<close>
  "sample_args = \<lparr>regexs = [url_name_pattern, number_stage], padding = Some 3,
     directory = ''out'', config = default_config\<rparr>"

definition legacy_default_args :: "regex args" where
  \<comment> \<open>the older script's defaults (no number stage, no padding), and the directory \<^verbatim>\<open>out\<close>\<close>
  "legacy_default_args = \<lparr>regexs = [url_name_pattern], padding = None,
     directory = ''out'', config = default_config\<rparr>"

definition empty_state :: state where
  "empty_state = \<lparr>files = Map.empty, out = []\<rparr>"

section \<open>Padding\<close>

lemma rjust_eq: "rjust c w s = replicate (w - length s) c @ s"
proof (induction c w s rule: rjust.induct)
  case (1 c w s)
  show ?case
  proof (cases "length s < w")
    case True
    then have "rjust c w s = rjust c w (c # s)" by (subst rjust.simps) simp
    also have "\<dots> = replicate (w - Suc (length s)) c @ c # s" using 1 True by simp
    also have "\<dots> = replicate (w - length s) c @ s"
      using True by (metis Suc_diff_Suc replicate_Suc replicate_app_Cons_same append_Cons)
    finally show ?thesis .
  next
    case False
    then show ?thesis by (subst rjust.simps) simp
  qed
qed

lemma length_rjust: "length (rjust c w s) = max w (length s)"
  by (simp add: rjust_eq)

section \<open>Name resolution\<close>

lemma spec_stage_None: "spec_stage srch None r = None"
  by (simp add: spec_stage_def)

lemma spec_stage_Some:
  "spec_stage srch (Some d) r = (case srch r d of Some (Captured t) \<Rightarrow> Some t | _ \<Rightarrow> None)"
  by (simp add: spec_stage_def)

lemma foldl_stage_None: "foldl (spec_stage srch) None rs = None"
  by (induction rs) (simp_all add: spec_stage_None)

lemma sequential_search_spec:
  "groups_present srch d rs \<Longrightarrow>
   sequential_search srch (Some d) rs = Inr (foldl (spec_stage srch) (Some d) rs)"
proof (induction rs arbitrary: d)
  case Nil
  then show ?case by simp
next
  case (Cons r rs)
  show ?case
  proof (cases "srch r d")
    case None
    then show ?thesis by (simp add: spec_stage_Some foldl_stage_None)
  next
    case (Some g)
    with Cons.prems obtain t where g: "g = Captured t" and gp: "groups_present srch t rs"
      by (cases g) simp_all
    from Cons.IH [OF gp] Some g show ?thesis by (simp add: spec_stage_Some)
  qed
qed

lemma stage_fails:
  assumes "k < length rs" "spec_resolve srch u (take k rs) = Some d" "srch (rs ! k) d = None"
  shows "spec_resolve srch u rs = None"
proof -
  have "rs = take k rs @ rs ! k # drop (Suc k) rs"
    using assms(1) by (simp add: id_take_nth_drop)
  then have "spec_resolve srch u rs =
      foldl (spec_stage srch) (spec_stage srch (spec_resolve srch u (take k rs)) (rs ! k))
        (drop (Suc k) rs)"
    unfolding spec_resolve_def by (metis foldl_append foldl_Cons)
  also have "spec_stage srch (spec_resolve srch u (take k rs)) (rs ! k) = None"
    using assms(2,3) by (simp add: spec_stage_Some)
  finally show ?thesis by (simp add: foldl_stage_None)
qed

lemma scenario_D:
  "get_name py_search ''https://example.com/chapter/42/'' [url_name_pattern, number_stage] (Some 3)
     = Inr ''042.cbz''"
  by (simp add: get_name_def py_search_def url_name_pattern_def number_stage_def
      format_padded_def rjust_eq)

section \<open>What the locator returns\<close>

lemma collect_map_Inr:
  "collect (map Inr ls) = ([d. Skipped d \<leftarrow> ls], Inr [i. Found i \<leftarrow> ls])"
proof (induction ls)
  case Nil
  then show ?case by simp
next
  case (Cons l ls)
  then show ?case by (cases l) simp_all
qed

lemma collect_Inr_D: "collect rs = (ds, Inr is) \<Longrightarrow> \<exists>ls. rs = map Inr ls"
proof (induction rs arbitrary: ds "is" rule: collect.induct)
  case 1
  then show ?case by simp
next
  case (2 e rs)
  then show ?case by simp
next
  case (3 d rs)
  then obtain ds' is' where c: "collect rs = (ds', Inr is')"
    by (auto split: prod.splits)
  from 3(1) [OF c] obtain ls where "rs = map Inr ls" by blast
  then have "Inr (Skipped d) # rs = map Inr (Skipped d # ls)" by simp
  then show ?case by (rule exI [of _ "Skipped d # ls"])
next
  case (4 i rs)
  then obtain ds' is' where c: "collect rs = (ds', Inr is')"
    by (auto split: prod.splits sum.splits)
  from 4(1) [OF c] obtain ls where "rs = map Inr ls" by blast
  then have "Inr (Found i) # rs = map Inr (Found i # ls)" by simp
  then show ?case by (rule exI [of _ "Found i # ls"])
qed

lemma collect_Inr_iff:
  "collect rs = (ds, Inr is) \<longleftrightarrow>
   (\<exists>ls. rs = map Inr ls \<and> ds = [d. Skipped d \<leftarrow> ls] \<and> is = [i. Found i \<leftarrow> ls])"
  using collect_Inr_D [of rs ds "is"] by (auto simp: collect_map_Inr)

lemma collect_append:
  "collect (map Inr ls @ rs) =
     ([d. Skipped d \<leftarrow> ls] @ fst (collect rs),
      case snd (collect rs) of Inl e \<Rightarrow> Inl e | Inr is \<Rightarrow> Inr ([i. Found i \<leftarrow> ls] @ is))"
proof (induction ls)
  case Nil
  then show ?case by (cases "collect rs") (auto split: sum.splits)
next
  case (Cons l ls)
  then show ?case by (cases l) (auto split: sum.splits prod.splits)
qed

lemma found_in_nodes:
  assumes "locate srch nodes cfg = (ds, Inr is)" "i \<in> set is"
  shows "\<exists>node \<in> set nodes. img_from_node srch node cfg = Inr (Found i)"
proof -
  from assms(1) obtain ls where ls: "map (\<lambda>node. img_from_node srch node cfg) nodes = map Inr ls"
    and "is": "is = [i. Found i \<leftarrow> ls]"
    unfolding locate_def collect_Inr_iff by blast
  from assms(2) "is" have "Found i \<in> set ls" by (auto split: located.splits)
  then have "Inr (Found i) \<in> set (map (\<lambda>node. img_from_node srch node cfg) nodes)"
    unfolding ls by simp
  then show ?thesis by auto
qed

lemma img_of_match_Found:
  "img_of_match srch pat u n = Inr (Found i) \<Longrightarrow>
   \<exists>t. srch pat n = Some (Captured t)
     \<and> i = \<lparr>img.filename = rjust CHR ''0'' 3 t @ ''.jpg'', url = strip u\<rparr>"
  by (auto simp: img_of_match_def split: option.splits group1.splits)

lemma img_from_node_Found:
  assumes "img_from_node srch node cfg = Inr (Found i)"
  shows "\<exists>u n t. attributes_get node (url_attr cfg) = Some u \<and> u \<noteq> [] \<and> \<not> endswith u ''png''
    \<and> attributes_get node (number_attr cfg) = Some n \<and> n \<noteq> []
    \<and> srch (number_pattern cfg) n = Some (Captured t)
    \<and> i = \<lparr>img.filename = rjust CHR ''0'' 3 t @ ''.jpg'', url = strip u\<rparr>"
proof -
  let ?u = "attributes_get node (url_attr cfg)" and ?n = "attributes_get node (number_attr cfg)"
  from assms have nf: "\<not> falsy ?u" "\<not> falsy ?n"
    by (auto simp: img_from_node_def Let_def split: if_splits)
  then obtain u n where un: "?u = Some u" "u \<noteq> []" "?n = Some n" "n \<noteq> []"
    by (auto simp: falsy_def)
  from assms nf un have np: "\<not> endswith u ''png''"
    by (auto simp: img_from_node_def Let_def split: if_splits)
  from assms nf un np have "img_of_match srch (number_pattern cfg) u n = Inr (Found i)"
    by (simp add: img_from_node_def Let_def)
  from img_of_match_Found [OF this] un np show ?thesis by blast
qed

lemma scenario_A:
  "locate py_search three_nodes default_config =
     ([], Inr [\<lparr>img.filename = ''001.jpg'', url = ''https://example.com/a.jpg''\<rparr>,
               \<lparr>img.filename = ''002.jpg'', url = ''https://example.com/b.jpg''\<rparr>,
               \<lparr>img.filename = ''003.jpg'', url = ''https://example.com/c.jpg''\<rparr>])"
  by (simp add: locate_def three_nodes_def img_from_node_def default_config_def
      attributes_get_def falsy_def endswith_def img_of_match_def py_search_def number_stage_def
      rjust.simps strip_def is_space_def)

text \<open>
  C7, as the code has it. The filename of every descriptor that the locator returns is the
  first group of the match of the number pattern, with \<^verbatim>\<open>0\<close> characters in front up to a
  width of at least 3, and \<^verbatim>\<open>.jpg\<close>: the part before \<^verbatim>\<open>.jpg\<close> has \<open>max 3 (length t)\<close>
  characters, so exactly 3 only when the group has at most 3.
\<close>

theorem filename_padded:
  assumes "locate srch nodes cfg = (ds, Inr is)" and "i \<in> set is"
  shows "\<exists>node \<in> set nodes. \<exists>n t.
      attributes_get node (number_attr cfg) = Some n
    \<and> srch (number_pattern cfg) n = Some (Captured t)
    \<and> img.filename i = replicate (3 - length t) CHR ''0'' @ t @ ''.jpg''
    \<and> length (replicate (3 - length t) CHR ''0'' @ t) = max 3 (length t)
    \<and> (length t \<le> 3 \<longleftrightarrow> length (replicate (3 - length t) CHR ''0'' @ t) = 3)"
proof -
  from found_in_nodes [OF assms] obtain node where node: "node \<in> set nodes"
    and f: "img_from_node srch node cfg = Inr (Found i)" by blast
  from img_from_node_Found [OF f] obtain u n t where
    "attributes_get node (number_attr cfg) = Some n"
    "srch (number_pattern cfg) n = Some (Captured t)"
    "i = \<lparr>img.filename = rjust CHR ''0'' 3 t @ ''.jpg'', url = strip u\<rparr>" by blast
  with node show ?thesis by (auto simp: rjust_eq intro!: bexI [of _ node])
qed

theorem filename_padded_witness:
  "locate py_search three_nodes default_config =
     ([], Inr [\<lparr>img.filename = ''001.jpg'', url = ''https://example.com/a.jpg''\<rparr>,
               \<lparr>img.filename = ''002.jpg'', url = ''https://example.com/b.jpg''\<rparr>,
               \<lparr>img.filename = ''003.jpg'', url = ''https://example.com/c.jpg''\<rparr>])
   \<and> (\<exists>node \<in> set three_nodes. \<exists>n t.
        attributes_get node (number_attr default_config) = Some n
      \<and> py_search (number_pattern default_config) n = Some (Captured t)
      \<and> ''002.jpg'' = replicate (3 - length t) CHR ''0'' @ t @ ''.jpg''
      \<and> length (replicate (3 - length t) CHR ''0'' @ t) = max 3 (length t)
      \<and> (length t \<le> 3 \<longleftrightarrow> length (replicate (3 - length t) CHR ''0'' @ t) = 3))"
  using filename_padded [OF scenario_A,
      of "\<lparr>img.filename = ''002.jpg'', url = ''https://example.com/b.jpg''\<rparr>"]
    scenario_A by simp

text \<open>
  C7 as stated fails: an element with the id 1234 gives the filename \<^verbatim>\<open>1234.jpg\<close>, whose
  part before \<^verbatim>\<open>.jpg\<close> has four characters.
\<close>

theorem filename_width_counterexample:
  "img_from_node py_search [''id'' \<mapsto> Some ''1234'', ''src'' \<mapsto> Some ''a.jpg''] default_config
     = Inr (Found \<lparr>img.filename = ''1234.jpg'', url = ''a.jpg''\<rparr>)
   \<and> length ''1234'' \<noteq> 3"
  by (simp add: img_from_node_def default_config_def attributes_get_def falsy_def endswith_def
      img_of_match_def py_search_def number_stage_def rjust.simps strip_def is_space_def)

section \<open>The test of the suffix and the stored URL\<close>

lemma endswith_last: "endswith s suf \<Longrightarrow> suf \<noteq> [] \<Longrightarrow> last s = last suf"
proof -
  assume a: "endswith s suf" and ne: "suf \<noteq> []"
  then have d: "drop (length s - length suf) s = suf" by (simp add: endswith_def)
  have "s = take (length s - length suf) s @ suf"
    using d by (metis append_take_drop_id)
  then show ?thesis using ne by (metis last_append)
qed

lemma endswith_append: "endswith (xs @ suf) suf"
  by (simp add: endswith_def)

lemma not_space_png: "\<not> is_space CHR ''p''" "\<not> is_space CHR ''n''" "\<not> is_space CHR ''g''"
  by (simp_all add: is_space_def)

lemma strip_png_spaces:
  assumes "\<forall>c \<in> set ws. is_space c"
  shows "strip (pre @ ''png'' @ ws) = dropWhile is_space pre @ ''png''"
proof -
  have 1: "dropWhile is_space (pre @ ''png'' @ ws) = dropWhile is_space pre @ ''png'' @ ws"
    by (simp add: dropWhile_append not_space_png)
  have 2: "rev (dropWhile is_space pre @ ''png'' @ ws)
      = rev ws @ ''gnp'' @ rev (dropWhile is_space pre)" by simp
  have 3: "dropWhile is_space (rev ws @ ''gnp'' @ rev (dropWhile is_space pre))
      = ''gnp'' @ rev (dropWhile is_space pre)"
    using assms by (simp add: dropWhile_append not_space_png)
  show ?thesis unfolding strip_def 1 2 3 by simp
qed

lemma raw_url_not_png:
  assumes "ws \<noteq> []" "\<forall>c \<in> set ws. is_space c"
  shows "\<not> endswith (pre @ ''png'' @ ws) ''png''"
proof
  assume "endswith (pre @ ''png'' @ ws) ''png''"
  then have "last (pre @ ''png'' @ ws) = CHR ''g''" by (auto dest: endswith_last)
  with assms(1) have "last ws = CHR ''g''" by simp
  moreover from assms have "is_space (last ws)" by simp
  ultimately show False by (simp add: not_space_png)
qed

text \<open>
  C10, as the code has it. The test for the suffix \<^verbatim>\<open>png\<close> reads the URL attribute as it
  is, and the descriptor stores the stripped URL. So a node whose URL attribute ends in
  \<^verbatim>\<open>png\<close> followed by whitespace is never dropped by that test; when its number attribute
  is present, not empty and matched by the number pattern with its group, the node gives a
  descriptor, whose URL is the stripped attribute and ends in \<^verbatim>\<open>png\<close>.
\<close>

theorem png_test_reads_raw_url:
  assumes "attributes_get node (url_attr cfg) = Some (pre @ ''png'' @ ws)"
    and "ws \<noteq> []" and "\<forall>c \<in> set ws. is_space c"
  shows "img_from_node srch node cfg \<noteq> Inr (Skipped (Dropped (pre @ ''png'' @ ws)))
    \<and> (\<forall>n t. attributes_get node (number_attr cfg) = Some n \<and> n \<noteq> []
             \<and> srch (number_pattern cfg) n = Some (Captured t) \<longrightarrow>
          (\<exists>i. img_from_node srch node cfg = Inr (Found i)
             \<and> url i = strip (pre @ ''png'' @ ws) \<and> endswith (url i) ''png''))"
proof (intro conjI allI impI)
  have np: "\<not> endswith (pre @ ''png'' @ ws) ''png''"
    using assms(2,3) by (rule raw_url_not_png)
  have nf: "\<not> falsy (Some (pre @ ''png'' @ ws))" by (simp add: falsy_def)
  show "img_from_node srch node cfg \<noteq> Inr (Skipped (Dropped (pre @ ''png'' @ ws)))"
    using assms(1) np
    by (auto simp: img_from_node_def Let_def img_of_match_def
        split: option.splits group1.splits)
  fix n t
  assume h: "attributes_get node (number_attr cfg) = Some n \<and> n \<noteq> []
      \<and> srch (number_pattern cfg) n = Some (Captured t)"
  then have "img_from_node srch node cfg
      = Inr (Found \<lparr>img.filename = rjust CHR ''0'' 3 t @ ''.jpg'', url = strip (pre @ ''png'' @ ws)\<rparr>)"
    using assms(1) np by (simp add: img_from_node_def Let_def img_of_match_def falsy_def)
  moreover have "endswith (strip (pre @ ''png'' @ ws)) ''png''"
    using assms(3) by (simp only: strip_png_spaces endswith_append)
  ultimately show "\<exists>i. img_from_node srch node cfg = Inr (Found i)
             \<and> url i = strip (pre @ ''png'' @ ws) \<and> endswith (url i) ''png''"
    by simp
qed

theorem png_test_reads_raw_url_witness:
  "attributes_get [''id'' \<mapsto> Some ''7'', ''src'' \<mapsto> Some ''a.png  ''] (url_attr default_config)
      = Some (''a.'' @ ''png'' @ ''  '')
   \<and> img_from_node py_search [''id'' \<mapsto> Some ''7'', ''src'' \<mapsto> Some ''a.png  ''] default_config
      = Inr (Found \<lparr>img.filename = ''007.jpg'', url = ''a.png''\<rparr>)
   \<and> endswith ''a.png'' ''png''"
proof -
  let ?node = "[''id'' \<mapsto> Some ''7'', ''src'' \<mapsto> Some ''a.png  '']"
  have a: "attributes_get ?node (url_attr default_config) = Some (''a.'' @ ''png'' @ ''  '')"
    by (simp add: attributes_get_def default_config_def)
  have b: "''  '' \<noteq> []" by simp
  have c: "\<forall>c \<in> set ''  ''. is_space c" by (simp add: is_space_def)
  have d: "attributes_get ?node (number_attr default_config) = Some ''7'' \<and> ''7'' \<noteq> []
      \<and> py_search (number_pattern default_config) ''7'' = Some (Captured ''7'')"
    by (simp add: attributes_get_def default_config_def py_search_def number_stage_def)
  have e: "img_from_node py_search ?node default_config
      = Inr (Found \<lparr>img.filename = ''007.jpg'', url = ''a.png''\<rparr>)"
    by (simp add: img_from_node_def default_config_def attributes_get_def falsy_def endswith_def
      img_of_match_def py_search_def number_stage_def rjust.simps strip_def is_space_def)
  from png_test_reads_raw_url [OF a b c, of py_search] d e a show ?thesis
    by (simp add: endswith_def strip_def is_space_def)
qed

text \<open>
  C10 as stated fails: a node with such a URL and no number attribute is skipped.
\<close>

theorem png_whitespace_counterexample:
  "img_from_node py_search [''src'' \<mapsto> Some ''a.png ''] default_config
     = Inr (Skipped (NotPresent (Some ''a.png '') None))"
  by (simp add: img_from_node_def default_config_def attributes_get_def falsy_def)

section \<open>Skipped nodes and document order\<close>

lemma collect_append_Inl:
  "snd (collect rs) = Inl e \<Longrightarrow> collect (rs @ rs') = collect rs"
  by (induction rs rule: collect.induct) (auto split: prod.splits sum.splits)

lemma locate_append:
  "locate srch (xs @ ys) cfg =
     (case locate srch xs cfg of
        (d1, Inl e) \<Rightarrow> (d1, Inl e)
      | (d1, Inr i1) \<Rightarrow>
          (case locate srch ys cfg of
             (d2, Inl e) \<Rightarrow> (d1 @ d2, Inl e)
           | (d2, Inr i2) \<Rightarrow> (d1 @ d2, Inr (i1 @ i2))))"
proof (cases "locate srch xs cfg")
  case (Pair d1 r1)
  show ?thesis
  proof (cases r1)
    case (Inl e)
    with Pair have "snd (collect (map (\<lambda>node. img_from_node srch node cfg) xs)) = Inl e"
      by (simp add: locate_def)
    from collect_append_Inl [OF this] Pair Inl show ?thesis
      by (simp add: locate_def)
  next
    case (Inr i1)
    with Pair have "collect (map (\<lambda>node. img_from_node srch node cfg) xs) = (d1, Inr i1)"
      by (simp add: locate_def)
    then obtain ls where ls: "map (\<lambda>node. img_from_node srch node cfg) xs = map Inr ls"
      and d1: "d1 = [d. Skipped d \<leftarrow> ls]" and i1: "i1 = [i. Found i \<leftarrow> ls]"
      unfolding collect_Inr_iff by blast
    have "locate srch (xs @ ys) cfg
        = collect (map Inr ls @ map (\<lambda>node. img_from_node srch node cfg) ys)"
      by (simp add: locate_def ls)
    then show ?thesis using Pair Inr d1 i1
      by (simp add: collect_append locate_def split: prod.splits sum.splits)
  qed
qed

lemma locate_single:
  "locate srch [node] cfg =
     (case img_from_node srch node cfg of
        Inl e \<Rightarrow> ([], Inl e)
      | Inr (Skipped d) \<Rightarrow> ([d], Inr [])
      | Inr (Found i) \<Rightarrow> ([], Inr [i]))"
  by (simp add: locate_def split: sum.splits located.splits)

lemma img_from_node_skips:
  "falsy (attributes_get node (url_attr cfg)) \<or> falsy (attributes_get node (number_attr cfg)) \<Longrightarrow>
     img_from_node srch node cfg
       = Inr (Skipped (NotPresent (attributes_get node (url_attr cfg))
                (attributes_get node (number_attr cfg))))"
  "attributes_get node (url_attr cfg) = Some u \<Longrightarrow> endswith u ''png'' \<Longrightarrow>
     \<exists>d. img_from_node srch node cfg = Inr (Skipped d)"
  by (auto simp: img_from_node_def Let_def)

lemma locate_skips:
  assumes "falsy (attributes_get node (url_attr cfg)) \<or> falsy (attributes_get node (number_attr cfg))
      \<or> (\<exists>u. attributes_get node (url_attr cfg) = Some u \<and> endswith u ''png'')"
  shows "snd (locate srch (xs @ node # ys) cfg) = snd (locate srch (xs @ ys) cfg)"
proof -
  from assms obtain d where d: "img_from_node srch node cfg = Inr (Skipped d)"
    using img_from_node_skips [where node = node and cfg = cfg and srch = srch] by blast
  have "locate srch (node # ys) cfg = (d # fst (locate srch ys cfg), snd (locate srch ys cfg))"
    by (simp add: locate_def d split: prod.splits)
  then show ?thesis
    by (simp add: locate_append [of srch xs] split: prod.splits sum.splits)
qed

text \<open>
  C3 on the older script: its \<^verbatim>\<open>img_from_node\<close> keeps a node whose URL ends in \<^verbatim>\<open>png\<close>, and
  a node without the number attribute ends the whole search with a KeyError, where the
  package skips both nodes with a diagnostic.
\<close>

theorem legacy_locate_evaluation:
  "locate_legacy py_search [[''id'' \<mapsto> Some ''1'', ''src'' \<mapsto> Some ''a.png'']] default_config
     = ([], Inr [\<lparr>img.filename = ''001.jpg'', url = ''a.png''\<rparr>])
   \<and> locate_legacy py_search [[''src'' \<mapsto> Some ''a.jpg'']] default_config
     = ([], Inl (KeyError ''id''))
   \<and> locate py_search [[''id'' \<mapsto> Some ''1'', ''src'' \<mapsto> Some ''a.png'']] default_config
     = ([Dropped ''a.png''], Inr [])
   \<and> locate py_search [[''src'' \<mapsto> Some ''a.jpg'']] default_config
     = ([NotPresent (Some ''a.jpg'') None], Inr [])"
  by (simp add: locate_legacy_def locate_def img_from_node_legacy_def img_from_node_def
      attributes_index_def attributes_get_def default_config_def falsy_def endswith_def
      img_of_match_def py_search_def number_stage_def rjust.simps strip_def is_space_def)

section \<open>Downloading all images of an archive\<close>

lemma gather_Inr_iff: "gather order rs = Inr bs \<longleftrightarrow> rs = map Inr bs"
proof
  assume g: "gather order rs = Inr bs"
  then have f: "filter (\<lambda>k. k < length rs \<and> isl (rs ! k)) (order @ [0 ..< length rs]) = []"
    and bs: "bs = map projr rs"
    by (auto simp: gather_def split: list.splits)
  have "\<not> isl (rs ! k)" if "k < length rs" for k
  proof -
    from f have "\<forall>k \<in> set (order @ [0 ..< length rs]). \<not> (k < length rs \<and> isl (rs ! k))"
      by (simp only: filter_empty_conv)
    with that show ?thesis by simp
  qed
  then have "\<forall>k < length rs. rs ! k = Inr (projr (rs ! k))"
    by (metis sum.collapse(2))
  then show "rs = map Inr bs" unfolding bs by (simp add: list_eq_iff_nth_eq)
next
  assume r: "rs = map Inr bs"
  then have "filter (\<lambda>k. k < length rs \<and> isl (rs ! k)) (order @ [0 ..< length rs]) = []"
    by (auto simp: filter_empty_conv)
  then show "gather order rs = Inr bs" using r
    by (simp add: gather_def comp_def)
qed

lemma gather_Inl_D: "gather order rs = Inl e \<Longrightarrow> Inl e \<in> set rs"
proof -
  assume "gather order rs = Inl e"
  then obtain k ks where
    f: "filter (\<lambda>k. k < length rs \<and> isl (rs ! k)) (order @ [0 ..< length rs]) = k # ks"
    and e: "e = projl (rs ! k)"
    by (auto simp: gather_def split: list.splits)
  from f have "k \<in> set (filter (\<lambda>k. k < length rs \<and> isl (rs ! k)) (order @ [0 ..< length rs]))"
    by simp
  then have k: "k < length rs" "isl (rs ! k)" by auto
  then have "rs ! k = Inl e" using e by simp
  with k(1) show ?thesis by (metis nth_mem)
qed

lemma download_jpeg_Inl:
  "download_jpeg w i = Inl e \<Longrightarrow>
     (\<exists>c. fetch w (url i) = Inl c \<and> e = DownloadFailed (url i) c)
   \<or> (\<exists>im c. fetch w (url i) = Inr im \<and> encode w im = Inl c \<and> e = Uncaught c)"
  by (auto simp: download_jpeg_def split: sum.splits)

lemma download_jpeg_settled: "download_jpeg (w\<lparr>settled := order\<rparr>) = download_jpeg w"
  by (rule ext) (simp add: download_jpeg_def split: sum.splits)

text \<open>
  C2, as the code has it. \<open>download\<close> either stores one blob per descriptor, in the order
  of the descriptors whatever the order in which the downloads finish, or fails as a whole
  and leaves the archive as it was. The error is that of one of the descriptors: the
  error that carries its URL and the cause when fetching or opening the image failed, and
  the encoder's own exception when writing the JPEG failed.
\<close>

theorem download_all_or_nothing:
  "(snd (download w a) = None \<longrightarrow>
      (\<exists>bs. fst (download w a) = a\<lparr>imgs_data := Some bs\<rparr>
         \<and> length bs = length (imgs a)
         \<and> (\<forall>k < length (imgs a). download_jpeg w (imgs a ! k) = Inr (bs ! k))
         \<and> (\<forall>order. download (w\<lparr>settled := order\<rparr>) a = download w a)))
   \<and> (\<forall>e. snd (download w a) = Some e \<longrightarrow>
        fst (download w a) = a
      \<and> (\<exists>i \<in> set (imgs a).
            (\<exists>c. fetch w (url i) = Inl c \<and> e = DownloadFailed (url i) c)
          \<or> (\<exists>im c. fetch w (url i) = Inr im \<and> encode w im = Inl c \<and> e = Uncaught c)))"
proof (intro conjI impI allI)
  assume s: "snd (download w a) = None"
  then obtain bs where g: "gather (settled w (imgs a)) (map (download_jpeg w) (imgs a)) = Inr bs"
    by (auto simp: download_def split: sum.splits)
  then have m: "map (download_jpeg w) (imgs a) = map Inr bs" by (simp add: gather_Inr_iff)
  then have len: "length bs = length (imgs a)" by (metis length_map)
  have nth: "download_jpeg w (imgs a ! k) = Inr (bs ! k)" if "k < length (imgs a)" for k
    using m that len by (metis nth_map)
  have ord: "download (w\<lparr>settled := order\<rparr>) a = download w a" for order
  proof -
    have "map (download_jpeg (w\<lparr>settled := order\<rparr>)) (imgs a) = map Inr bs"
      using m by (simp only: download_jpeg_settled)
    then have "gather (settled (w\<lparr>settled := order\<rparr>) (imgs a))
        (map (download_jpeg (w\<lparr>settled := order\<rparr>)) (imgs a)) = Inr bs"
      by (simp only: gather_Inr_iff)
    with g show ?thesis by (simp add: download_def)
  qed
  from g len nth ord
  show "\<exists>bs. fst (download w a) = a\<lparr>imgs_data := Some bs\<rparr>
         \<and> length bs = length (imgs a)
         \<and> (\<forall>k < length (imgs a). download_jpeg w (imgs a ! k) = Inr (bs ! k))
         \<and> (\<forall>order. download (w\<lparr>settled := order\<rparr>) a = download w a)"
    by (intro exI [of _ bs]) (simp add: download_def)
next
  fix e assume s: "snd (download w a) = Some e"
  then have g: "gather (settled w (imgs a)) (map (download_jpeg w) (imgs a)) = Inl e"
    by (auto simp: download_def split: sum.splits)
  then show "fst (download w a) = a" by (simp add: download_def)
  from gather_Inl_D [OF g] obtain i where i: "i \<in> set (imgs a)" "download_jpeg w i = Inl e"
    by auto
  from download_jpeg_Inl [OF i(2)] i(1)
  show "\<exists>i \<in> set (imgs a).
            (\<exists>c. fetch w (url i) = Inl c \<and> e = DownloadFailed (url i) c)
          \<or> (\<exists>im c. fetch w (url i) = Inr im \<and> encode w im = Inl c \<and> e = Uncaught c)"
    by blast
qed

lemmas sample_defs = sample_world_def sample_args_def empty_state_def default_config_def
  three_nodes_def posix_join_def
lemmas eval_defs = actions_def body_def emit_def find_images_def locate_def img_from_node_def
  attributes_get_def falsy_def endswith_def img_of_match_def py_search_def number_stage_def
  url_name_pattern_def rjust.simps strip_def is_space_def get_name_def format_padded_def
  download_def download_jpeg_def gather_def save_def Let_def

lemmas run_defs = sample_defs eval_defs zipinfo_filename_def

theorem download_all_or_nothing_witness:
  "snd (download sample_world (sample_archive\<lparr>imgs_data := None\<rparr>)) = None
   \<and> fst (download sample_world (sample_archive\<lparr>imgs_data := None\<rparr>))
       = sample_archive\<lparr>imgs_data := Some [[255, 216, 255], [255, 216, 255]]\<rparr>
   \<and> download sample_world
       \<lparr>archive.filename = ''004.cbz'',
        imgs = [\<lparr>img.filename = ''001.jpg'', url = ''https://example.com/a.jpg''\<rparr>,
                \<lparr>img.filename = ''002.jpg'', url = ''https://example.com/missing.jpg''\<rparr>],
        imgs_data = None\<rparr>
     = (\<lparr>archive.filename = ''004.cbz'',
         imgs = [\<lparr>img.filename = ''001.jpg'', url = ''https://example.com/a.jpg''\<rparr>,
                 \<lparr>img.filename = ''002.jpg'', url = ''https://example.com/missing.jpg''\<rparr>],
         imgs_data = None\<rparr>,
        Some (DownloadFailed ''https://example.com/missing.jpg'' ''404''))"
proof -
  have a: "download sample_world (sample_archive\<lparr>imgs_data := None\<rparr>)
      = (sample_archive\<lparr>imgs_data := Some [[255, 216, 255], [255, 216, 255]]\<rparr>, None)"
    by (simp add: sample_defs sample_archive_def download_def download_jpeg_def gather_def)
  have b: "download sample_world
       \<lparr>archive.filename = ''004.cbz'',
        imgs = [\<lparr>img.filename = ''001.jpg'', url = ''https://example.com/a.jpg''\<rparr>,
                \<lparr>img.filename = ''002.jpg'', url = ''https://example.com/missing.jpg''\<rparr>],
        imgs_data = None\<rparr>
     = (\<lparr>archive.filename = ''004.cbz'',
         imgs = [\<lparr>img.filename = ''001.jpg'', url = ''https://example.com/a.jpg''\<rparr>,
                 \<lparr>img.filename = ''002.jpg'', url = ''https://example.com/missing.jpg''\<rparr>],
         imgs_data = None\<rparr>,
        Some (DownloadFailed ''https://example.com/missing.jpg'' ''404''))"
    by (simp add: sample_defs download_def download_jpeg_def gather_def)
  from download_all_or_nothing [of sample_world "sample_archive\<lparr>imgs_data := None\<rparr>"] a b
  show ?thesis by simp
qed

text \<open>
  C2 as stated fails: an image that is fetched and opened but that the encoder refuses
  makes \<open>download\<close> fail with the encoder's exception, which carries no URL.
\<close>

theorem encode_failure_counterexample:
  "download sample_world
     \<lparr>archive.filename = ''003.cbz'',
      imgs = [\<lparr>img.filename = ''001.jpg'', url = ''https://example.com/rgba.jpg''\<rparr>],
      imgs_data = None\<rparr>
   = (\<lparr>archive.filename = ''003.cbz'',
       imgs = [\<lparr>img.filename = ''001.jpg'', url = ''https://example.com/rgba.jpg''\<rparr>],
       imgs_data = None\<rparr>,
      Some (Uncaught ''cannot write mode RGBA as JPEG''))"
  by (simp add: sample_defs download_def download_jpeg_def gather_def)

section \<open>Errors during the run\<close>

lemma loop_append:
  "loop w a len idx (us @ vs) st =
     (case loop w a len idx us st of
        (st1, Some e) \<Rightarrow> (st1, Some e)
      | (st1, None) \<Rightarrow> loop w a len (idx + length us) vs st1)"
proof (induction us arbitrary: idx st)
  case Nil
  then show ?case by simp
next
  case (Cons u us)
  show ?case
  proof (cases "body w a idx len u st")
    case (Pair st' r)
    then show ?thesis by (cases r) (simp_all add: Cons.IH split: prod.splits option.splits)
  qed
qed

section \<open>Pages without images\<close>

lemma body_no_images:
  assumes "snd (find_images w u (config a)) = Inr []"
  shows "snd (body w a idx len u st) = Some (NoImagesFound u)
       \<and> files (fst (body w a idx len u st)) = files st"
  using assms by (cases "find_images w u (config a)") (auto simp: body_def emit_def Let_def)

lemma body_files:
  assumes "body w a idx len u st = (st', r)"
  shows "files st' = files st
    \<or> (\<exists>name images bs. images \<noteq> [] \<and> length bs = length images
          \<and> map (download_jpeg w) images = map Inr bs
          \<and> snd (find_images w u (config a)) = Inr images
          \<and> files st' = (files st)(joinpath w (directory a) name \<mapsto>
                            zip (map (zipinfo_filename \<circ> img.filename) images) bs))"
proof (cases "find_images w u (config a)")
  case (Pair ds fr)
  show ?thesis
  proof (cases fr)
    case (Inl e)
    with Pair assms show ?thesis by (auto simp: body_def emit_def Let_def)
  next
    case (Inr images)
    show ?thesis
    proof (cases "images = []")
      case True
      with Pair Inr assms show ?thesis by (auto simp: body_def emit_def Let_def)
    next
      case ne: False
      show ?thesis
      proof (cases "get_name (re_search w) u (regexs a) (padding a)")
        case (Inl e)
        with Pair Inr ne assms show ?thesis by (auto simp: body_def emit_def Let_def)
      next
        case name: (Inr name)
        show ?thesis
        proof (cases "gather (settled w images) (map (download_jpeg w) images)")
          case (Inl e)
          with Pair Inr ne name assms show ?thesis
            by (auto simp: body_def emit_def Let_def download_def)
        next
          case g: (Inr bs)
          then have m: "map (download_jpeg w) images = map Inr bs" by (simp add: gather_Inr_iff)
          then have len: "length bs = length images" by (metis length_map)
          from Pair Inr ne name g assms
          have "files st' = files st \<or> files st' = (files st)(joinpath w (directory a) name \<mapsto>
                            zip (map (zipinfo_filename \<circ> img.filename) images) bs)"
            by (auto simp: body_def emit_def Let_def download_def save_def split: option.splits)
          with ne len m Pair Inr show ?thesis by auto
        qed
      qed
    qed
  qed
qed

text \<open>
  C4 on the older script: its loop has no test for an empty result, so a page without
  images ends in an archive without entries on disk and no error, where the package
  raises the error for that URL and writes nothing. With the options \<^verbatim>\<open>-n -p 3\<close> the older
  script writes \<^verbatim>\<open>out/001.cbz\<close>, with its own defaults \<^verbatim>\<open>out/1.cbz\<close>.
\<close>

theorem legacy_run_saves_empty_archive:
  "actions_legacy sample_world sample_args [''https://example.com/chapter/1/''] empty_state
     = (\<lparr>files = [''out/001.cbz'' \<mapsto> []],
         out = [Processing ''https://example.com/chapter/1/'']\<rparr>, None)
   \<and> actions sample_world sample_args [''https://example.com/chapter/1/''] empty_state
     = (\<lparr>files = Map.empty, out = [Progress 0 1 ''https://example.com/chapter/1/'']\<rparr>,
        Some (NoImagesFound ''https://example.com/chapter/1/''))
   \<and> actions_legacy sample_world legacy_default_args [''https://example.com/chapter/1/'']
        empty_state
     = (\<lparr>files = [''out/1.cbz'' \<mapsto> []],
         out = [Processing ''https://example.com/chapter/1/'']\<rparr>, None)"
  by (simp add: sample_defs eval_defs body_legacy_def find_images_legacy_def locate_legacy_def
      download_legacy_def legacy_default_args_def)

section \<open>The width of the bar\<close>

text \<open>
  C9 on the code: with 11 of 11 URLs done the product \<^verbatim>\<open>completed * step\<close> is the float just
  above 100, so the bar has 101 filler cells and no empty one; with 11 of 22 it has 51
  filler cells where the proportion calls for 50.
\<close>

theorem bar_overfull:
  "bar 11 11 100 ''#'' '' '' = Inr (''['' @ replicate 101 CHR ''#'' @ '']'')
   \<and> bar 11 22 100 ''#'' '' ''
       = Inr (''['' @ replicate 51 CHR ''#'' @ replicate 49 CHR '' '' @ '']'')"
  by code_simp

section \<open>Name resolution on every chain\<close>

lemma sequential_search_prefix:
  "foldl (spec_stage srch) (Some u) xs = Some d \<Longrightarrow>
   sequential_search srch (Some u) (xs @ ys) = sequential_search srch (Some d) ys"
proof (induction xs arbitrary: u)
  case Nil
  then show ?case by simp
next
  case (Cons x xs)
  have "spec_stage srch (Some u) x \<noteq> None"
  proof
    assume "spec_stage srch (Some u) x = None"
    with Cons.prems show False by (simp add: foldl_stage_None)
  qed
  then obtain t where t: "srch x u = Some (Captured t)"
    by (auto simp: spec_stage_Some split: option.splits group1.splits)
  with Cons.prems have "foldl (spec_stage srch) (Some t) xs = Some d"
    by (simp add: spec_stage_Some)
  from Cons.IH [OF this] t show ?case by simp
qed

lemma sequential_search_at:
  assumes "k < length rs" "spec_resolve srch u (take k rs) = Some d"
  shows "sequential_search srch (Some u) rs
       = sequential_search srch (Some d) (rs ! k # drop (Suc k) rs)"
proof -
  have "rs = take k rs @ rs ! k # drop (Suc k) rs"
    using assms(1) by (simp add: id_take_nth_drop)
  then have "sequential_search srch (Some u) rs
      = sequential_search srch (Some u) (take k rs @ rs ! k # drop (Suc k) rs)" by simp
  also have "\<dots> = sequential_search srch (Some d) (rs ! k # drop (Suc k) rs)"
    using assms(2) unfolding spec_resolve_def by (rule sequential_search_prefix)
  finally show ?thesis .
qed

lemma sequential_search_resolved:
  "spec_resolve srch u rs = Some n \<Longrightarrow> sequential_search srch (Some u) rs = Inr (Some n)"
  using sequential_search_prefix [of srch u rs n "[]"] by (simp add: spec_resolve_def)

lemma concat_map_first:
  assumes "i \<le> n" "\<forall>j < i. f j = []"
  shows "concat (map f [0 ..< Suc n]) = f i @ concat (map f [Suc i ..< Suc n])"
proof -
  have "[0 ..< Suc n] = [0 ..< i] @ [i ..< Suc n]"
    using assms(1) by (metis le_SucI upt_add_eq_append zero_le le_add_diff_inverse add_0)
  also have "[i ..< Suc n] = i # [Suc i ..< Suc n]"
    using assms(1) by (simp add: upt_conv_Cons)
  finally have "[0 ..< Suc n] = [0 ..< i] @ i # [Suc i ..< Suc n]" .
  moreover have "concat (map f [0 ..< i]) = []" using assms(2) by simp
  ultimately show ?thesis by simp
qed

lemma py_search_first_match:
  assumes "i \<le> length s" "\<forall>j < i. matches s r (j, None) = []"
    and "matches s r (i, None) = (e, g) # ms"
  shows "py_search r s =
     Some (if \<not> has_group r then NoSuchGroup
           else case g of None \<Rightarrow> NotParticipating | Some t \<Rightarrow> Captured t)"
  using concat_map_first [of i "length s" "\<lambda>i. matches s r (i, None)"] assms
  by (simp add: py_search_def)

lemma py_search_None_iff:
  "py_search r s = None \<longleftrightarrow> (\<forall>i \<le> length s. matches s r (i, None) = [])"
proof -
  have aux: "(case xs of [] \<Rightarrow> None | (j, g) # _ \<Rightarrow> Some (h g)) = None \<longleftrightarrow> xs = []"
    for xs :: "(nat \<times> string option) list" and h :: "string option \<Rightarrow> group1"
    by (cases xs) auto
  have "py_search r s = None
      \<longleftrightarrow> concat (map (\<lambda>i. matches s r (i, None)) [0 ..< Suc (length s)]) = []"
    unfolding py_search_def by (rule aux)
  also have "\<dots> \<longleftrightarrow> (\<forall>i \<in> set [0 ..< Suc (length s)]. matches s r (i, None) = [])"
    by (simp only: concat_eq_Nil_conv set_map ball_simps)
  also have "\<dots> \<longleftrightarrow> (\<forall>i \<le> length s. matches s r (i, None) = [])"
    by (auto simp: less_Suc_eq_le)
  finally show ?thesis .
qed

text \<open>
  C5, as the code has it. Name resolution starts with the URL and, for each pattern of
  the chain in order, searches the working value and replaces it with the first group of
  the match: whenever the pass of the specification gives a name, \<open>sequential_search\<close>
  gives that name, and on a chain whose matches all have their first group the two agree
  altogether. At the first stage that does not go through, \<open>get_name\<close> fails: with the
  error that carries the URL when the pattern does not match, with IndexError when the
  pattern matches and has no group, and, when the group took no part in the match, with
  TypeError if a stage follows and with the error that carries the URL if none does. The
  search is not anchored: it takes the first start position that has a match, wherever it
  is, and fails only when no position has one; so the number stage alone finds \<^verbatim>\<open>42\<close> inside
  the URL. The URL \<^verbatim>\<open>https://example.com/chapter/42/\<close> with the default pattern, the number
  stage and padding 3 resolves to \<^verbatim>\<open>042.cbz\<close>.
\<close>

theorem name_resolution:
  "(\<forall>n. spec_resolve srch u rs = Some n \<longrightarrow>
        sequential_search srch (Some u) rs = Inr (Some n))
   \<and> (groups_present srch u rs \<longrightarrow>
        sequential_search srch (Some u) rs = Inr (spec_resolve srch u rs))
   \<and> (\<forall>k d. k < length rs \<and> spec_resolve srch u (take k rs) = Some d \<longrightarrow>
        (srch (rs ! k) d = None \<longrightarrow> get_name srch u rs pad = Inl (NameNotMatched u))
      \<and> (srch (rs ! k) d = Some NoSuchGroup \<longrightarrow> get_name srch u rs pad = Inl IndexError)
      \<and> (srch (rs ! k) d = Some NotParticipating \<longrightarrow>
            get_name srch u rs pad
              = (if Suc k < length rs then Inl TypeError else Inl (NameNotMatched u))))
   \<and> (\<forall>r s i e g ms. i \<le> length s \<and> (\<forall>j < i. matches s r (j, None) = [])
          \<and> matches s r (i, None) = (e, g) # ms \<longrightarrow>
        py_search r s =
          Some (if \<not> has_group r then NoSuchGroup
                else case g of None \<Rightarrow> NotParticipating | Some t \<Rightarrow> Captured t))
   \<and> (\<forall>r s. py_search r s = None \<longleftrightarrow> (\<forall>i \<le> length s. matches s r (i, None) = []))
   \<and> get_name py_search ''https://example.com/chapter/42/'' [number_stage] None = Inr ''42.cbz''
   \<and> get_name py_search ''https://example.com/chapter/42/'' [url_name_pattern, number_stage]
          (Some 3) = Inr ''042.cbz''"
proof (intro conjI allI impI)
  show "sequential_search srch (Some u) rs = Inr (Some n)" if "spec_resolve srch u rs = Some n" for n
    using that by (rule sequential_search_resolved)
  show "sequential_search srch (Some u) rs = Inr (spec_resolve srch u rs)"
    if "groups_present srch u rs"
    using that by (simp add: sequential_search_spec spec_resolve_def)
next
  fix k d
  assume h: "k < length rs \<and> spec_resolve srch u (take k rs) = Some d"
  then have at: "sequential_search srch (Some u) rs
       = sequential_search srch (Some d) (rs ! k # drop (Suc k) rs)"
    by (blast intro: sequential_search_at)
  show "get_name srch u rs pad = Inl (NameNotMatched u)" if "srch (rs ! k) d = None"
    using that at by (simp add: get_name_def)
  show "get_name srch u rs pad = Inl IndexError" if "srch (rs ! k) d = Some NoSuchGroup"
    using that at by (simp add: get_name_def)
  show "get_name srch u rs pad
      = (if Suc k < length rs then Inl TypeError else Inl (NameNotMatched u))"
    if "srch (rs ! k) d = Some NotParticipating"
  proof (cases "drop (Suc k) rs")
    case Nil
    then have "\<not> Suc k < length rs" by simp
    with that at Nil show ?thesis by (simp add: get_name_def)
  next
    case (Cons r' rs')
    then have "Suc k < length rs" by (metis drop_eq_Nil list.distinct(1) not_le)
    with that at Cons show ?thesis by (simp add: get_name_def)
  qed
next
  fix r s i e g ms
  assume "i \<le> length s \<and> (\<forall>j < i. matches s r (j, None) = [])
          \<and> matches s r (i, None) = (e, g) # ms"
  then show "py_search r s =
          Some (if \<not> has_group r then NoSuchGroup
                else case g of None \<Rightarrow> NotParticipating | Some t \<Rightarrow> Captured t)"
    by (blast intro: py_search_first_match)
next
  fix r s
  show "py_search r s = None \<longleftrightarrow> (\<forall>i \<le> length s. matches s r (i, None) = [])"
    by (rule py_search_None_iff)
next
  show "get_name py_search ''https://example.com/chapter/42/'' [number_stage] None = Inr ''42.cbz''"
    by (simp add: get_name_def py_search_def number_stage_def)
  show "get_name py_search ''https://example.com/chapter/42/'' [url_name_pattern, number_stage]
          (Some 3) = Inr ''042.cbz''"
    by (rule scenario_D)
qed

theorem name_resolution_witness:
  "spec_resolve py_search ''https://example.com/series-name/''
        (take 1 [url_name_pattern, number_stage]) = Some ''series-name''
   \<and> py_search ([url_name_pattern, number_stage] ! 1) ''series-name'' = None
   \<and> get_name py_search ''https://example.com/series-name/'' [url_name_pattern, number_stage]
        (Some 3) = Inl (NameNotMatched ''https://example.com/series-name/'')
   \<and> spec_resolve py_search ''https://example.com/chapter/42/'' [url_name_pattern, number_stage]
        = Some ''42''
   \<and> sequential_search py_search (Some ''https://example.com/chapter/42/'')
        [url_name_pattern, number_stage] = Inr (Some ''42'')"
proof -
  have a: "spec_resolve py_search ''https://example.com/series-name/''
      (take 1 [url_name_pattern, number_stage]) = Some ''series-name''"
    by (simp add: spec_resolve_def spec_stage_Some py_search_def url_name_pattern_def)
  have b: "py_search ([url_name_pattern, number_stage] ! 1) ''series-name'' = None"
    by (simp add: py_search_def number_stage_def)
  have c: "spec_resolve py_search ''https://example.com/chapter/42/''
      [url_name_pattern, number_stage] = Some ''42''"
    by (simp add: spec_resolve_def spec_stage_Some py_search_def url_name_pattern_def
        number_stage_def)
  have l: "(1::nat) < length [url_name_pattern, number_stage]" by simp
  from name_resolution [of py_search "''https://example.com/series-name/''"
      "[url_name_pattern, number_stage]" "Some 3"] a b l
  have d: "get_name py_search ''https://example.com/series-name/'' [url_name_pattern, number_stage]
        (Some 3) = Inl (NameNotMatched ''https://example.com/series-name/'')"
    by blast
  from name_resolution [of py_search "''https://example.com/chapter/42/''"
      "[url_name_pattern, number_stage]" "Some 3"] c
  have e: "sequential_search py_search (Some ''https://example.com/chapter/42/'')
        [url_name_pattern, number_stage] = Inr (Some ''42'')"
    by blast
  from a b c d e show ?thesis by (intro conjI)
qed

text \<open>
  C5 as stated fails: the one-stage chain \<^verbatim>\<open>\d+\<close> matches the URL and has no group, so
  resolution neither takes a first group nor fails with the error that carries the URL.
\<close>

theorem name_resolution_counterexample:
  "get_name py_search ''https://example.com/chapter/42/'' [Plus Digit] (Some 3) = Inl IndexError
   \<and> py_search (Plus Digit) ''https://example.com/chapter/42/'' = Some NoSuchGroup"
  by (simp add: get_name_def py_search_def)

section \<open>The width of the padding\<close>

text \<open>
  C6, as the code has it. For a resolved name and a padding \<open>0 < w < 2 ^ 63\<close>, \<open>get_name\<close>
  puts \<^verbatim>\<open>0\<close> characters in front of the name, as text, up to the width \<open>w\<close>, and appends
  \<^verbatim>\<open>.cbz\<close>: the padded part has at least \<open>w\<close> characters, and exactly \<open>w\<close> when the name has
  at most \<open>w\<close>. A padding of \<open>2 ^ 63\<close> or more is refused by the format specification. A
  padding of 0 or no padding gives the name and \<^verbatim>\<open>.cbz\<close>.
\<close>

theorem padding_of_names:
  assumes "sequential_search srch (Some u) rs = Inr (Some name)"
  shows "(0 < w \<and> w < 2 ^ 63 \<longrightarrow>
            get_name srch u rs (Some w)
              = Inr (replicate (nat w - length name) CHR ''0'' @ name @ ''.cbz'')
          \<and> w \<le> int (length (replicate (nat w - length name) CHR ''0'' @ name))
          \<and> (int (length name) \<le> w \<longrightarrow>
                int (length (replicate (nat w - length name) CHR ''0'' @ name)) = w))
    \<and> (2 ^ 63 \<le> w \<longrightarrow> get_name srch u rs (Some w) = Inl FormatError)
    \<and> get_name srch u rs (Some 0) = Inr (name @ ''.cbz'')
    \<and> get_name srch u rs None = Inr (name @ ''.cbz'')"
  using assms by (auto simp: get_name_def format_padded_def rjust_eq)

theorem padding_of_names_witness:
  "sequential_search py_search (Some ''https://example.com/series-name/'') [url_name_pattern]
      = Inr (Some ''series-name'')
   \<and> get_name py_search ''https://example.com/series-name/'' [url_name_pattern] (Some 15)
      = Inr ''0000series-name.cbz''
   \<and> get_name py_search ''https://example.com/series-name/'' [url_name_pattern] (Some 3)
      = Inr ''series-name.cbz''
   \<and> get_name py_search ''https://example.com/series-name/'' [url_name_pattern] None
      = Inr ''series-name.cbz''"
proof -
  have s: "sequential_search py_search (Some ''https://example.com/series-name/'')
      [url_name_pattern] = Inr (Some ''series-name'')"
    by (simp add: py_search_def url_name_pattern_def)
  from padding_of_names [OF s, of 15] padding_of_names [OF s, of 3] s
  show ?thesis by (simp add: numeral_eq_Suc)
qed

text \<open>
  C6 as stated fails: the padding \<open>2 ^ 63\<close> is positive and gives no name.
\<close>

theorem padding_width_counterexample:
  "get_name py_search ''https://example.com/series-name/'' [url_name_pattern]
     (Some 9223372036854775808) = Inl FormatError
   \<and> (0::int) < 9223372036854775808"
  by (simp add: get_name_def format_padded_def py_search_def url_name_pattern_def)

section \<open>Saving and reading back\<close>







section \<open>Errors during the run, in both scripts\<close>

lemma actions_legacy_append:
  "actions_legacy w a (us @ vs) st =
     (case actions_legacy w a us st of
        (st1, Some e) \<Rightarrow> (st1, Some e)
      | (st1, None) \<Rightarrow> actions_legacy w a vs st1)"
proof (induction us arbitrary: st)
  case Nil
  then show ?case by simp
next
  case (Cons u us)
  show ?case
  proof (cases "body_legacy w a u st")
    case (Pair st' r)
    then show ?thesis by (cases r) (simp_all add: Cons.IH split: prod.splits option.splits)
  qed
qed

lemma actions_at:
  assumes "loop w a (length (us @ u # rest)) 0 us st = (st1, None)"
    and "body w a (length us) (length (us @ u # rest)) u st1 = (st2, Some e)"
  shows "actions w a (us @ u # rest) st = (st2, Some e)"
proof -
  have "loop w a (length (us @ u # rest)) 0 (us @ u # rest) st = (st2, Some e)"
    using assms by (simp add: loop_append)
  then show ?thesis by (simp add: actions_def)
qed

lemma actions_legacy_at:
  assumes "actions_legacy w a us st = (st1, None)"
    and "body_legacy w a u st1 = (st2, Some e)"
  shows "actions_legacy w a (us @ u # rest) st = (st2, Some e)"
  using assms by (simp add: actions_legacy_append)

text \<open>
  C1, as the code has it. When the URLs before \<open>u\<close> went through, an error at \<open>u\<close> ends the
  whole run with that error, whatever URLs follow: the error of the request or of the
  locator, the error for a page without images, the error of \<open>get_name\<close>, the error of the
  download and the error of \<open>save\<close>. The state is the one the earlier URLs left, with the
  output of \<open>u\<close> added, so the files saved before stay and nothing is written for \<open>u\<close> or
  after it (a failing \<open>save\<close> leaves what it wrote). The older script does the same,
  without the error for a page without images.
\<close>

theorem run_stops_at_first_error:
  "(loop w a (length (us @ u # rest)) 0 us st = (st1, None)
      \<and> find_images w u (config a) = (ds, r)
      \<and> st2 = st1\<lparr>out := out st1 @ Progress (length us) (length (us @ u # rest)) u
                                    # map Diagnostic ds\<rparr> \<longrightarrow>
      files st2 = files st1
    \<and> (\<forall>e. r = Inl e \<longrightarrow> actions w a (us @ u # rest) st = (st2, Some e))
    \<and> (r = Inr [] \<longrightarrow> actions w a (us @ u # rest) st = (st2, Some (NoImagesFound u)))
    \<and> (\<forall>images. r = Inr images \<and> images \<noteq> [] \<longrightarrow>
          (\<forall>e. get_name (re_search w) u (regexs a) (padding a) = Inl e \<longrightarrow>
                actions w a (us @ u # rest) st = (st2, Some e))
        \<and> (\<forall>name ar. get_name (re_search w) u (regexs a) (padding a) = Inr name \<longrightarrow>
              (\<forall>e. download w \<lparr>archive.filename = name, imgs = images, imgs_data = None\<rparr>
                      = (ar, Some e) \<longrightarrow>
                    actions w a (us @ u # rest) st = (st2, Some e))
            \<and> (\<forall>fs e. download w \<lparr>archive.filename = name, imgs = images, imgs_data = None\<rparr>
                        = (ar, None)
                      \<and> save w ar (directory a) (files st1) = (fs, Some e) \<longrightarrow>
                    actions w a (us @ u # rest) st = (st2\<lparr>files := fs\<rparr>, Some e)))))
   \<and> (actions_legacy w a us st = (lt1, None)
      \<and> find_images_legacy w u (config a) = (lds, lr)
      \<and> lt2 = lt1\<lparr>out := out lt1 @ Processing u # map Diagnostic lds\<rparr> \<longrightarrow>
      files lt2 = files lt1
    \<and> (\<forall>e. lr = Inl e \<longrightarrow> actions_legacy w a (us @ u # rest) st = (lt2, Some e))
    \<and> (\<forall>images. lr = Inr images \<longrightarrow>
          (\<forall>e. get_name (re_search w) u (regexs a) (padding a) = Inl e \<longrightarrow>
                actions_legacy w a (us @ u # rest) st = (lt2, Some e))
        \<and> (\<forall>name ar. get_name (re_search w) u (regexs a) (padding a) = Inr name \<longrightarrow>
              (\<forall>e. download_legacy w
                        \<lparr>archive.filename = name, imgs = images, imgs_data = None\<rparr>
                      = (ar, Some e) \<longrightarrow>
                    actions_legacy w a (us @ u # rest) st = (lt2, Some e))
            \<and> (\<forall>fs e. download_legacy w
                          \<lparr>archive.filename = name, imgs = images, imgs_data = None\<rparr>
                        = (ar, None)
                      \<and> save w ar (directory a) (files lt1) = (fs, Some e) \<longrightarrow>
                    actions_legacy w a (us @ u # rest) st = (lt2\<lparr>files := fs\<rparr>, Some e)))))"
proof (intro conjI impI)
  assume h: "loop w a (length (us @ u # rest)) 0 us st = (st1, None)
      \<and> find_images w u (config a) = (ds, r)
      \<and> st2 = st1\<lparr>out := out st1 @ Progress (length us) (length (us @ u # rest)) u
                                    # map Diagnostic ds\<rparr>"
  then have l: "loop w a (length (us @ u # rest)) 0 us st = (st1, None)"
    and f: "find_images w u (config a) = (ds, r)"
    and st2: "st2 = st1\<lparr>out := out st1 @ Progress (length us) (length (us @ u # rest)) u
                                    # map Diagnostic ds\<rparr>"
    by simp_all
  note at = actions_at [OF l]
  show "files st2 = files st1" by (simp add: st2)
  show "\<forall>e. r = Inl e \<longrightarrow> actions w a (us @ u # rest) st = (st2, Some e)"
    by (intro allI impI at) (simp add: body_def emit_def Let_def f st2)
  show "actions w a (us @ u # rest) st = (st2, Some (NoImagesFound u))" if "r = Inr []"
    by (rule at) (simp add: body_def emit_def Let_def f st2 that)
  show "\<forall>images. r = Inr images \<and> images \<noteq> [] \<longrightarrow>
          (\<forall>e. get_name (re_search w) u (regexs a) (padding a) = Inl e \<longrightarrow>
                actions w a (us @ u # rest) st = (st2, Some e))
        \<and> (\<forall>name ar. get_name (re_search w) u (regexs a) (padding a) = Inr name \<longrightarrow>
              (\<forall>e. download w \<lparr>archive.filename = name, imgs = images, imgs_data = None\<rparr>
                      = (ar, Some e) \<longrightarrow>
                    actions w a (us @ u # rest) st = (st2, Some e))
            \<and> (\<forall>fs e. download w \<lparr>archive.filename = name, imgs = images, imgs_data = None\<rparr>
                        = (ar, None)
                      \<and> save w ar (directory a) (files st1) = (fs, Some e) \<longrightarrow>
                    actions w a (us @ u # rest) st = (st2\<lparr>files := fs\<rparr>, Some e)))"
    by (intro allI impI conjI at) (auto simp: body_def emit_def Let_def f st2)
next
  assume h: "actions_legacy w a us st = (lt1, None)
      \<and> find_images_legacy w u (config a) = (lds, lr)
      \<and> lt2 = lt1\<lparr>out := out lt1 @ Processing u # map Diagnostic lds\<rparr>"
  then have l: "actions_legacy w a us st = (lt1, None)"
    and f: "find_images_legacy w u (config a) = (lds, lr)"
    and lt2: "lt2 = lt1\<lparr>out := out lt1 @ Processing u # map Diagnostic lds\<rparr>"
    by simp_all
  note at = actions_legacy_at [OF l]
  show "files lt2 = files lt1" by (simp add: lt2)
  show "\<forall>e. lr = Inl e \<longrightarrow> actions_legacy w a (us @ u # rest) st = (lt2, Some e)"
    by (intro allI impI at) (simp add: body_legacy_def emit_def Let_def f lt2)
  show "\<forall>images. lr = Inr images \<longrightarrow>
          (\<forall>e. get_name (re_search w) u (regexs a) (padding a) = Inl e \<longrightarrow>
                actions_legacy w a (us @ u # rest) st = (lt2, Some e))
        \<and> (\<forall>name ar. get_name (re_search w) u (regexs a) (padding a) = Inr name \<longrightarrow>
              (\<forall>e. download_legacy w
                        \<lparr>archive.filename = name, imgs = images, imgs_data = None\<rparr>
                      = (ar, Some e) \<longrightarrow>
                    actions_legacy w a (us @ u # rest) st = (lt2, Some e))
            \<and> (\<forall>fs e. download_legacy w
                          \<lparr>archive.filename = name, imgs = images, imgs_data = None\<rparr>
                        = (ar, None)
                      \<and> save w ar (directory a) (files lt1) = (fs, Some e) \<longrightarrow>
                    actions_legacy w a (us @ u # rest) st = (lt2\<lparr>files := fs\<rparr>, Some e)))"
    by (intro allI impI conjI at) (auto simp: body_legacy_def emit_def Let_def f lt2)
qed

theorem run_stops_at_first_error_witness:
  "actions sample_world sample_args
        [''https://example.com/chapter/2/'', ''https://example.com/chapter/two/'',
         ''https://example.com/chapter/2/''] empty_state
     = (\<lparr>files = [''out/002.cbz'' \<mapsto> [(''001.jpg'', [255, 216, 255]),
           (''002.jpg'', [255, 216, 255]), (''003.jpg'', [255, 216, 255])]],
         out = [Progress 0 3 ''https://example.com/chapter/2/'', Erased]
                 @ Progress 1 3 ''https://example.com/chapter/two/'' # map Diagnostic []\<rparr>,
        Some (NameNotMatched ''https://example.com/chapter/two/''))
   \<and> actions_legacy sample_world sample_args
        [''https://example.com/gone/'', ''https://example.com/chapter/2/''] empty_state
     = (\<lparr>files = Map.empty,
         out = [] @ Processing ''https://example.com/gone/'' # map Diagnostic []\<rparr>,
        Some (Uncaught ''not found''))"
proof -
  let ?fs = "[''out/002.cbz'' \<mapsto> [(''001.jpg'', [255, 216, 255 :: 8 word]),
           (''002.jpg'', [255, 216, 255]), (''003.jpg'', [255, 216, 255])]]"
  let ?st1 = "\<lparr>files = ?fs, out = [Progress 0 3 ''https://example.com/chapter/2/'', Erased]\<rparr>"
  let ?imgs = "[\<lparr>img.filename = ''001.jpg'', url = ''https://example.com/a.jpg''\<rparr>,
               \<lparr>img.filename = ''002.jpg'', url = ''https://example.com/b.jpg''\<rparr>,
               \<lparr>img.filename = ''003.jpg'', url = ''https://example.com/c.jpg''\<rparr>]"
  have a: "loop sample_world sample_args
      (length ([''https://example.com/chapter/2/''] @ ''https://example.com/chapter/two/''
                 # [''https://example.com/chapter/2/'']))
      0 [''https://example.com/chapter/2/''] empty_state = (?st1, None)"
    by (simp add: run_defs)
  have b: "find_images sample_world ''https://example.com/chapter/two/'' (config sample_args)
      = ([], Inr ?imgs)"
    by (simp add: run_defs)
  have c: "get_name (re_search sample_world) ''https://example.com/chapter/two/''
      (regexs sample_args) (padding sample_args)
      = Inl (NameNotMatched ''https://example.com/chapter/two/'')"
    by (simp add: run_defs)
  have n: "?imgs \<noteq> []" by simp
  have l: "length ([''https://example.com/chapter/2/''] @ ''https://example.com/chapter/two/''
                 # [''https://example.com/chapter/2/'']) = 3"
    "length [''https://example.com/chapter/2/''] = 1" by simp_all
  have la: "actions_legacy sample_world sample_args [] empty_state = (empty_state, None)"
    by simp
  have lb: "find_images_legacy sample_world ''https://example.com/gone/'' (config sample_args)
      = ([], Inl (Uncaught ''not found''))"
    by (simp add: find_images_legacy_def sample_world_def)
  note T = run_stops_at_first_error [of sample_world sample_args
        "[''https://example.com/chapter/2/'']" "''https://example.com/chapter/two/''"
        "[''https://example.com/chapter/2/'']" empty_state]
  note P = T [THEN conjunct1, THEN mp, OF conjI [OF a conjI [OF b refl]]]
  note P4 = P [THEN conjunct2, THEN conjunct2, THEN conjunct2, THEN spec, THEN mp,
      OF conjI [OF refl n]]
  note p = P4 [THEN conjunct1, THEN spec, THEN mp, OF c]
  note L = run_stops_at_first_error [of sample_world sample_args
        "[]" "''https://example.com/gone/''" "[''https://example.com/chapter/2/'']" empty_state]
  note Q = L [THEN conjunct2, THEN mp, OF conjI [OF la conjI [OF lb refl]]]
  note q = Q [THEN conjunct2, THEN conjunct1, THEN spec, THEN mp, OF refl]
  from p q show ?thesis by (simp add: l empty_state_def)
qed

text \<open>
  C1 as stated fails: with chapter 2 second, a first URL without images, one whose name
  does not resolve and one whose image cannot be fetched each end the run with their
  error, and the archive of chapter 2, which a run on chapter 2 alone writes, is not
  written.
\<close>

theorem run_continues_counterexample:
  "actions sample_world sample_args
       [''https://example.com/chapter/1/'', ''https://example.com/chapter/2/''] empty_state
     = (\<lparr>files = Map.empty, out = [Progress 0 2 ''https://example.com/chapter/1/'']\<rparr>,
        Some (NoImagesFound ''https://example.com/chapter/1/''))
   \<and> actions sample_world sample_args
       [''https://example.com/chapter/two/'', ''https://example.com/chapter/2/''] empty_state
     = (\<lparr>files = Map.empty, out = [Progress 0 2 ''https://example.com/chapter/two/'']\<rparr>,
        Some (NameNotMatched ''https://example.com/chapter/two/''))
   \<and> actions sample_world sample_args
       [''https://example.com/chapter/4/'', ''https://example.com/chapter/2/''] empty_state
     = (\<lparr>files = Map.empty, out = [Progress 0 2 ''https://example.com/chapter/4/'']\<rparr>,
        Some (DownloadFailed ''https://example.com/missing.jpg'' ''404''))
   \<and> snd (actions sample_world sample_args [''https://example.com/chapter/2/''] empty_state) = None
   \<and> files (fst (actions sample_world sample_args [''https://example.com/chapter/2/''] empty_state))
        ''out/002.cbz''
      = Some [(''001.jpg'', [255, 216, 255]), (''002.jpg'', [255, 216, 255]),
              (''003.jpg'', [255, 216, 255])]"
  by (simp add: run_defs)

end
